theory Spec2Isabelle
  imports Complex_Main "HOL-Library.Product_Lexorder" "HOL-Library.Sublist"
begin

section \<open>Daily bars and the series store (src/src/downloader.py)\<close>

text \<open>
  A calendar day is the triple (year, month, day).  The program keeps days as the text
  \<^verbatim>\<open>YYYY-MM-DD\<close> and compares that text; on zero-padded fields the comparison of the text is
  the lexicographic comparison of the triple, which is the order products carry here.
\<close>

type_synonym date = "nat \<times> nat \<times> nat"

text \<open>
  One row of a series file, with the columns of \<^verbatim>\<open>fields\<close> in \<^verbatim>\<open>download_worker\<close>.  The columns
  listed in \<^verbatim>\<open>cols_to_numeric\<close> are numbers after \<^verbatim>\<open>pd.to_numeric(...).fillna(0)\<close>; the other
  ones stay text.  Numbers are reals: rounding errors of the machine's floats are not modelled.
\<close>

record row =
  date :: date
  code :: string
  openp :: real
  high :: real
  low :: real
  close :: real
  volume :: real
  amount :: string
  adjustflag :: string
  turn :: string
  pctChg :: real

text \<open>\<^verbatim>\<open>final_df.drop_duplicates(subset=['date'], keep='last')\<close>: a row stays when no later row
  has its date; the rows that stay keep their order.\<close>

fun drop_duplicates_last :: "row list \<Rightarrow> row list" where
  "drop_duplicates_last [] = []"
| "drop_duplicates_last (r # rs) =
     (if date r \<in> set (map date rs) then drop_duplicates_last rs
      else r # drop_duplicates_last rs)"

text \<open>\<^verbatim>\<open>final_df.sort_values('date')\<close>.  The rows it is given have pairwise different dates
  (they come out of \<^verbatim>\<open>drop_duplicates\<close>), so the order of the result does not depend on the
  sorting algorithm; insertion by key is used.\<close>

definition sort_values :: "row list \<Rightarrow> row list" where
  "sort_values df = sort_key date df"

text \<open>Lines 145 to 148: \<^verbatim>\<open>pd.concat([old_df, new_df])\<close>, then the two steps above.\<close>

definition append_merge :: "row list \<Rightarrow> row list \<Rightarrow> row list" where
  "append_merge old_df new_df = sort_values (drop_duplicates_last (old_df @ new_df))"

text \<open>
  What is at a symbol's path: nothing, a table that \<^verbatim>\<open>pd.read_csv\<close> returns, or content on
  which \<^verbatim>\<open>pd.read_csv\<close> raises (a file of zero bytes, for one).
\<close>

datatype file_content = Table "row list" | Garbled

type_synonym series_file = "file_content option"

definition exists_file :: "series_file \<Rightarrow> bool" where
  "exists_file f = (f \<noteq> None)"

fun read_csv :: "series_file \<Rightarrow> row list option" where
  "read_csv (Some (Table df)) = Some df"
| "read_csv _ = None"

text \<open>
  \<^verbatim>\<open>df.to_csv(file_path, index=False)\<close> writes in place.  The environment decides whether a
  call goes through; when it raises, the environment also decides what the call has left at
  the path by then.
\<close>

datatype write_outcome = Write_ok | Write_raises series_file

fun to_csv :: "write_outcome \<Rightarrow> row list \<Rightarrow> bool \<times> series_file" where
  "to_csv Write_ok df = (True, Some (Table df))"
| "to_csv (Write_raises left) df = (False, left)"

datatype fetch_mode = Full | Append

text \<open>The answer of \<^verbatim>\<open>bs.query_history_k_data_plus\<close>: the call raises, or its error code is
  not \<^verbatim>\<open>'0'\<close>, or it delivers rows (already converted to numbers).\<close>

datatype query_result = Query_raises | Error_code | Data "row list"

datatype task_outcome = Succeeded | Failed

text \<open>
  Lines 130 to 155 of \<^verbatim>\<open>download_worker\<close>, for a non-empty \<^verbatim>\<open>data_list\<close>.  \<open>w1\<close> is the outcome
  of the first call of \<^verbatim>\<open>to_csv\<close> that runs and \<open>w2\<close> the outcome of the second one, which
  only the bare \<^verbatim>\<open>except\<close> of line 150 can reach.  The first component of the result tells
  whether the block ended without an exception.
\<close>

definition write_series ::
  "fetch_mode \<Rightarrow> row list \<Rightarrow> series_file \<Rightarrow> write_outcome \<Rightarrow> write_outcome \<Rightarrow> bool \<times> series_file" where
  "write_series mode new_df f w1 w2 =
     (if mode = Append \<and> exists_file f then
        (case read_csv f of
           Some old_df \<Rightarrow>
             (case to_csv w1 (append_merge old_df new_df) of
                (True, f') \<Rightarrow> (True, f')
              | (False, f') \<Rightarrow> to_csv w2 new_df)
         | None \<Rightarrow> to_csv w1 new_df)
      else to_csv w1 new_df)"

text \<open>The body of the loop over \<^verbatim>\<open>task_list\<close> (lines 114 to 160) for one task: the outcome
  the task is filed under, and the file afterwards.\<close>

definition download_task ::
  "query_result \<Rightarrow> fetch_mode \<Rightarrow> series_file \<Rightarrow> write_outcome \<Rightarrow> write_outcome
     \<Rightarrow> task_outcome \<times> series_file" where
  "download_task rs mode f w1 w2 =
     (case rs of
        Query_raises \<Rightarrow> (Failed, f)
      | Error_code \<Rightarrow> (Failed, f)
      | Data data_list \<Rightarrow>
          (if data_list \<noteq> [] then
             (case write_series mode data_list f w1 w2 of
                (True, f') \<Rightarrow> (Succeeded, f')
              | (False, f') \<Rightarrow> (Failed, f'))
           else (Succeeded, f)))"

text \<open>The row a table holds for a day, when days are not repeated in it; and the last row
  of a batch for a day.\<close>

definition row_of :: "row list \<Rightarrow> date \<Rightarrow> row option" where
  "row_of df d = find (\<lambda>r. date r = d) df"

definition last_row_of :: "row list \<Rightarrow> date \<Rightarrow> row option" where
  "last_row_of df d = row_of (rev df) d"

section \<open>The planner (check_status_worker) and the constants of config.py\<close>

definition DEFAULT_START_DATE :: date where
  "DEFAULT_START_DATE = (2023, 1, 1)"

definition DATA_READY_HOUR :: nat where
  "DATA_READY_HOUR = 17"

definition MAX_ATTEMPTS :: nat where
  "MAX_ATTEMPTS = 7"

definition ABORT_THRESHOLD :: nat where
  "ABORT_THRESHOLD = 50"

text \<open>The calendar of \<^verbatim>\<open>datetime\<close>: proleptic Gregorian, years 1 to 9999.\<close>

definition leap_year :: "nat \<Rightarrow> bool" where
  "leap_year y = (y mod 4 = 0 \<and> (y mod 100 \<noteq> 0 \<or> y mod 400 = 0))"

definition days_in_month :: "nat \<Rightarrow> nat \<Rightarrow> nat" where
  "days_in_month y m =
     (if m = 2 then (if leap_year y then 29 else 28)
      else if m = 4 \<or> m = 6 \<or> m = 9 \<or> m = 11 then 30
      else 31)"

fun valid_date :: "date \<Rightarrow> bool" where
  "valid_date (y, m, d) =
     (1 \<le> y \<and> y \<le> 9999 \<and> 1 \<le> m \<and> m \<le> 12 \<and> 1 \<le> d \<and> d \<le> days_in_month y m)"

datatype error = ValueError | OverflowError

text \<open>\<^verbatim>\<open>datetime.datetime.strptime(last_date, "%Y-%m-%d")\<close> raises \<^verbatim>\<open>ValueError\<close> on text that
  is no day of the calendar.\<close>

definition strptime :: "date \<Rightarrow> error + date" where
  "strptime s = (if valid_date s then Inr s else Inl ValueError)"

text \<open>\<^verbatim>\<open>dt + datetime.timedelta(days=1)\<close> and \<^verbatim>\<open>dt - datetime.timedelta(days=1)\<close>, on a day of
  the calendar; both raise \<^verbatim>\<open>OverflowError\<close> when the result leaves the years 1 to 9999.\<close>

fun plus_one_day :: "date \<Rightarrow> error + date" where
  "plus_one_day (y, m, d) =
     (if d < days_in_month y m then Inr (y, m, d + 1)
      else if m < 12 then Inr (y, m + 1, 1)
      else if y < 9999 then Inr (y + 1, 1, 1)
      else Inl OverflowError)"

fun minus_one_day :: "date \<Rightarrow> error + date" where
  "minus_one_day (y, m, d) =
     (if 1 < d then Inr (y, m, d - 1)
      else if 1 < m then Inr (y, m - 1, days_in_month y (m - 1))
      else if 1 < y then Inr (y - 1, 12, 31)
      else Inl OverflowError)"

type_synonym item = "string \<times> string"

text \<open>What \<^verbatim>\<open>check_status_worker\<close> returns: the item, whether to download, the start date and
  the mode (\<^verbatim>\<open>'w'\<close> is \<open>Full\<close>, \<^verbatim>\<open>'a'\<close> is \<open>Append\<close>).\<close>

type_synonym status = "item \<times> bool \<times> date option \<times> fetch_mode option"

text \<open>
  \<^verbatim>\<open>check_status_worker\<close>.  Its reads of the outside are arguments: \<open>file_exists\<close> is
  \<^verbatim>\<open>os.path.exists(file_path)\<close>, \<open>last_date\<close> is what \<^verbatim>\<open>get_last_date(file_path)\<close> returns
  (\<open>None\<close> for \<^verbatim>\<open>None\<close> and for the empty text, which \<^verbatim>\<open>not last_date\<close> treats alike),
  \<open>today\<close> and \<open>current_hour\<close> are the date and the hour of \<^verbatim>\<open>datetime.datetime.now()\<close>.
  An exception that leaves the function is the \<open>Inl\<close> result.
\<close>

definition check_status_worker ::
  "item \<Rightarrow> bool \<Rightarrow> date option \<Rightarrow> date \<Rightarrow> nat \<Rightarrow> error + status" where
  "check_status_worker item file_exists last_date today current_hour =
     (if \<not> file_exists then Inr (item, True, Some DEFAULT_START_DATE, Some Full)
      else case last_date of
        None \<Rightarrow> Inr (item, True, Some DEFAULT_START_DATE, Some Full)
      | Some last_s \<Rightarrow>
          if last_s \<ge> today then Inr (item, False, None, None)
          else case strptime last_s of
            Inl e \<Rightarrow> Inl e
          | Inr last_dt \<Rightarrow>
              (case minus_one_day today of
                 Inl e \<Rightarrow> Inl e
               | Inr yesterday \<Rightarrow>
                   if last_s = yesterday \<and> current_hour < DATA_READY_HOUR
                   then Inr (item, False, None, None)
                   else case plus_one_day last_dt of
                     Inl e \<Rightarrow> Inl e
                   | Inr new_start_date \<Rightarrow>
                       if new_start_date > today then Inr (item, False, None, None)
                       else Inr (item, True, Some new_start_date, Some Append)))"

section \<open>The download rounds of StockDownloader.run\<close>

text \<open>A task is what \<^verbatim>\<open>check_status_worker\<close> returned for an item that needs a download; a
  worker answers a chunk with the pair \<^verbatim>\<open>(success, failed)\<close> of item lists.\<close>

type_synonym task = status

type_synonym worker_result = "item list \<times> item list"

text \<open>
  The state of the loop of lines 250 to 301.  The first four fields are the variables of the
  program.  The last two are counters of this model only: how many rounds have begun, and how
  many worker results the loop has taken from the pool during the whole run.
\<close>

record run_state =
  finished_codes :: "string set"
  final_success_count :: nat
  consecutive_fail :: nat
  abort :: bool
  rounds_begun :: nat
  results_taken :: nat

text \<open>The body of \<^verbatim>\<open>for success_list, failed_list in pool.imap_unordered(...)\<close> (lines 276 to
  292): one result updates the state; on \<^verbatim>\<open>consecutive_fail >= ABORT_THRESHOLD\<close> the loop is left
  (\<^verbatim>\<open>break\<close>) and the results that follow are never taken.\<close>

definition take_result :: "run_state \<Rightarrow> worker_result \<Rightarrow> run_state" where
  "take_result st r =
     (case r of (success_list, failed_list) \<Rightarrow>
        st\<lparr>finished_codes := finished_codes st \<union> set (map fst success_list),
           final_success_count := final_success_count st + length success_list,
           consecutive_fail :=
             (if success_list \<noteq> [] then 0 else consecutive_fail st + length failed_list),
           results_taken := results_taken st + 1\<rparr>)"

fun consume_results :: "run_state \<Rightarrow> worker_result list \<Rightarrow> run_state" where
  "consume_results st [] = st"
| "consume_results st (r # rest) =
     (let st1 = take_result st r
      in if consecutive_fail st1 \<ge> ABORT_THRESHOLD then st1\<lparr>abort := True\<rparr>
         else consume_results st1 rest)"

text \<open>Lines 266 to 269: \<^verbatim>\<open>current_batch[i:i + chunk_size]\<close> for \<^verbatim>\<open>i\<close> in steps of
  \<^verbatim>\<open>chunk_size = 20\<close>.\<close>

definition chunk_size :: nat where
  "chunk_size = 20"

function chunks_of :: "'a list \<Rightarrow> 'a list list" where
  "chunks_of xs = (if xs = [] then [] else take chunk_size xs # chunks_of (drop chunk_size xs))"
  by pat_completeness auto
termination
  by (relation "measure length") (auto simp: chunk_size_def)

declare chunks_of.simps [simp del]

text \<open>
  \<^verbatim>\<open>pool.imap_unordered(download_worker, chunks)\<close> is the environment: for the round
  \<open>attempt\<close> and its chunks it gives the workers' results in the order in which they arrive.
  Which tasks succeed, and in which order the chunks finish, is not decided by the program.
\<close>

type_synonym pool = "nat \<Rightarrow> (task list \<times> bool) list \<Rightarrow> worker_result list"

text \<open>One round (the body of \<^verbatim>\<open>for attempt in range(1, MAX_ATTEMPTS + 1)\<close>, lines 258 to 292),
  given a non-empty \<open>current_batch\<close>.\<close>

definition begin_round :: "run_state \<Rightarrow> run_state" where
  "begin_round st = st\<lparr>consecutive_fail := 0, abort := False, rounds_begun := rounds_begun st + 1\<rparr>"

definition round_chunks :: "nat \<Rightarrow> task list \<Rightarrow> (task list \<times> bool) list" where
  "round_chunks attempt current_batch =
     (let use_proxy = (attempt mod 2 = 0)
      in map (\<lambda>c. (c, use_proxy)) (chunks_of current_batch))"

definition run_round :: "pool \<Rightarrow> nat \<Rightarrow> task list \<Rightarrow> run_state \<Rightarrow> run_state" where
  "run_round imap_unordered attempt current_batch st =
     consume_results (begin_round st) (imap_unordered attempt (round_chunks attempt current_batch))"

text \<open>The loop over the attempts, with its two \<^verbatim>\<open>break\<close>s: nothing left to download (line
  260), and the breaker (lines 294 to 296).\<close>

fun for_attempts :: "pool \<Rightarrow> task list \<Rightarrow> nat list \<Rightarrow> run_state \<Rightarrow> run_state" where
  "for_attempts imap_unordered pending_tasks [] st = st"
| "for_attempts imap_unordered pending_tasks (attempt # later) st =
     (let current_batch = filter (\<lambda>t. fst (fst t) \<notin> finished_codes st) pending_tasks
      in if current_batch = [] then st
         else let st1 = run_round imap_unordered attempt current_batch st
              in if abort st1 then st1
                 else for_attempts imap_unordered pending_tasks later st1)"

definition initial_state :: run_state where
  "initial_state =
     \<lparr>finished_codes = {}, final_success_count = 0, consecutive_fail = 0, abort = False,
      rounds_begun = 0, results_taken = 0\<rparr>"

definition run :: "pool \<Rightarrow> task list \<Rightarrow> run_state" where
  "run imap_unordered tasks_to_run =
     for_attempts imap_unordered tasks_to_run [1 ..< MAX_ATTEMPTS + 1] initial_state"

text \<open>The failure volume at the end of a sequence of results: the number of failed tasks in
  the unbroken run of results without a success that ends the sequence.\<close>

definition trailing_failures :: "worker_result list \<Rightarrow> nat" where
  "trailing_failures rs =
     sum_list (map (\<lambda>r. length (snd r)) (takeWhile (\<lambda>r. fst r = []) (rev rs)))"

text \<open>A pool in which every task of every chunk fails, the chunks arriving in the order in
  which they were handed out; and \<open>n\<close> tasks (with different codes for
  \<open>n \<le> 256\<close>), for examples.\<close>

definition failing_pool :: pool where
  "failing_pool attempt chunks = map (\<lambda>c. ([], map fst (fst c))) chunks"

definition some_tasks :: "nat \<Rightarrow> task list" where
  "some_tasks n =
     map (\<lambda>i. (([char_of i], ''name''), True, Some DEFAULT_START_DATE, Some Full)) [0 ..< n]"

text \<open>A pool that follows a script: the chunks arrive in the order in which they were handed
  out, and the tasks of chunk \<open>i\<close> all succeed when the script holds \<open>True\<close> at \<open>i\<close> and all fail
  when it holds \<open>False\<close>.\<close>

definition scripted_pool :: "bool list \<Rightarrow> pool" where
  "scripted_pool oks attempt chunks =
     map (\<lambda>(ok, c). if ok then (map fst (fst c), []) else ([], map fst (fst c)))
       (zip oks chunks)"

section \<open>The analyzer (TechnicalAnalyzer._process_one_stock, src/src/data_analyzer.py)\<close>

text \<open>
  The indicator library \<^verbatim>\<open>pandas_ta\<close> is not part of the repository, so the analyzer is
  modelled over any library: a value of \<open>ta_lib\<close> holds the four functions the analyzer calls.
  A column of numbers is a list; a cell that holds \<^verbatim>\<open>NaN\<close> is \<open>None\<close>.  \<^verbatim>\<open>ta.macd\<close> and \<^verbatim>\<open>ta.kdj\<close>
  return a frame of three columns or \<^verbatim>\<open>None\<close>; a frame is the list of its rows.  \<^verbatim>\<open>ta.sma\<close> and
  \<^verbatim>\<open>ta.rsi\<close> return a column; where the library has no column to give (a window longer than
  the series) the cells the function reads are empty, as with a column of \<^verbatim>\<open>NaN\<close>.
\<close>

type_synonym column = "real option list"

record ta_lib =
  ta_sma :: "real list \<Rightarrow> nat \<Rightarrow> column"
  ta_macd :: "real list \<Rightarrow> (real option \<times> real option \<times> real option) list option"
  ta_kdj :: "real list \<Rightarrow> real list \<Rightarrow> real list
               \<Rightarrow> (real option \<times> real option \<times> real option) list option"
  ta_rsi :: "real list \<Rightarrow> nat \<Rightarrow> column"

text \<open>Assigning a column to the frame aligns it on the row index: a row the column does not
  reach gets \<^verbatim>\<open>NaN\<close>.\<close>

definition cell :: "'a option list \<Rightarrow> nat \<Rightarrow> 'a option" where
  "cell col i = (if i < length col then col ! i else None)"

text \<open>A row of the frame after section 1 of the function: the columns of the file and the
  indicator columns.  \<open>KD\<close> holds the cells \<^verbatim>\<open>K_9_3\<close> and \<^verbatim>\<open>D_9_3\<close>; it is \<open>None\<close> when \<^verbatim>\<open>ta.kdj\<close>
  returned \<^verbatim>\<open>None\<close> and the frame has no such columns.\<close>

record irow = row +
  MA5 :: "real option"
  MA20 :: "real option"
  MA60 :: "real option"
  MA250 :: "real option"
  DIF :: "real option"
  DEA :: "real option"
  KD :: "(real option \<times> real option) option"
  RSI :: "real option"
  VOL_MA5 :: "real option"

text \<open>Section 1 (lines 74 to 100).  \<open>DIF\<close> and \<open>DEA\<close> are the columns 0 and 1 of the frame of
  \<^verbatim>\<open>ta.macd\<close> (\<^verbatim>\<open>macd.iloc[:, 0]\<close>, \<^verbatim>\<open>macd.iloc[:, 1]\<close>); the function returns \<^verbatim>\<open>None\<close> when
  \<^verbatim>\<open>ta.macd\<close> does.\<close>

definition with_indicators :: "ta_lib \<Rightarrow> row list \<Rightarrow> irow list option" where
  "with_indicators ta df =
     (let closes = map close df;
          ma5 = ta_sma ta closes 5;
          ma20 = ta_sma ta closes 20;
          ma60 = ta_sma ta closes 60;
          ma250 = ta_sma ta closes 250
      in case ta_macd ta closes of
           None \<Rightarrow> None
         | Some macd \<Rightarrow>
             (let kdj = ta_kdj ta (map high df) (map low df) closes;
                  rsi = ta_rsi ta closes 14;
                  vol_ma5 = ta_sma ta (map volume df) 5
              in Some (map (\<lambda>i. row.extend (df ! i)
                   (irow.fields (cell ma5 i) (cell ma20 i) (cell ma60 i) (cell ma250 i)
                      (cell (map fst macd) i) (cell (map (fst \<circ> snd) macd) i)
                      (case kdj of
                         None \<Rightarrow> None
                       | Some f \<Rightarrow> Some (cell (map fst f) i, cell (map (fst \<circ> snd) f) i))
                      (cell rsi i) (cell vol_ma5 i)))
                 [0 ..< length df])))"

text \<open>The mode and the scope are texts in the program.  \<open>Backtest\<close> is \<^verbatim>\<open>"backtest"\<close> and
  \<open>Watchlist_only\<close> is \<^verbatim>\<open>"watchlist_only"\<close>; the function compares with these two texts only, so
  \<open>Current\<close> and \<open>All\<close> stand for every other text.\<close>

datatype mode = Current | Backtest

datatype scope = All | Watchlist_only

text \<open>\<^verbatim>\<open>past_data.index[-1]\<close> for \<^verbatim>\<open>past_data = df[df['date'] <= target_dt]\<close>: the position of the
  last row whose date is not after the target; \<open>None\<close> when \<^verbatim>\<open>past_data\<close> is empty.\<close>

definition past_data_last_index :: "date \<Rightarrow> row list \<Rightarrow> nat option" where
  "past_data_last_index target_dt df =
     (case filter (\<lambda>i. date (df ! i) \<le> target_dt) [0 ..< length df] of
        [] \<Rightarrow> None
      | i # is \<Rightarrow> Some (last (i # is)))"

text \<open>Section 2 (lines 102 to 111); \<open>None\<close> is \<^verbatim>\<open>return None\<close>.  An absent or empty
  \<^verbatim>\<open>bt_date\<close> is \<open>None\<close>: then, as in current mode, the last row is taken.\<close>

definition evaluation_index :: "mode \<Rightarrow> date option \<Rightarrow> row list \<Rightarrow> nat option" where
  "evaluation_index md bt_date df =
     (case (md, bt_date) of
        (Backtest, Some target_dt) \<Rightarrow>
          (case past_data_last_index target_dt df of
             None \<Rightarrow> None
           | Some idx \<Rightarrow> if idx < 60 then None else Some idx)
      | _ \<Rightarrow> Some (length df - 1))"

text \<open>Comparisons of cells: a comparison with \<^verbatim>\<open>NaN\<close> is false.\<close>

definition gt :: "real option \<Rightarrow> real option \<Rightarrow> bool" where
  "gt a b = (case (a, b) of (Some x, Some y) \<Rightarrow> x > y | _ \<Rightarrow> False)"

definition lt :: "real option \<Rightarrow> real option \<Rightarrow> bool" where
  "lt a b = (case (a, b) of (Some x, Some y) \<Rightarrow> x < y | _ \<Rightarrow> False)"

text \<open>\<^verbatim>\<open>round(x, n)\<close>: to \<open>n\<close> decimals, a tie going to the even neighbour.\<close>

definition py_round :: "real \<Rightarrow> nat \<Rightarrow> real" where
  "py_round x n =
     (let y = x * 10 ^ n; f = \<lfloor>y\<rfloor>; d = y - of_int f
      in of_int (if d < 1 / 2 then f else if 1 / 2 < d then f + 1
                 else if even f then f else f + 1) / 10 ^ n)"

text \<open>The labels are Chinese text in the program; here each set of labels is a datatype.
  \<open>Insufficient_data\<close> is "shuju buzu", \<open>Bullish\<close> "duotou pailie", \<open>Bearish\<close> "kongtou pailie",
  \<open>Rebound\<close> "fantan qushi", \<open>Consolidation\<close> "zhendang zhengli".\<close>

datatype ma_label = Insufficient_data | Bullish | Bearish | Rebound | Consolidation

definition get_ma_state :: "real \<Rightarrow> real option \<Rightarrow> real option \<Rightarrow> real option \<Rightarrow> ma_label" where
  "get_ma_state cl ma5 ma20 ma60 =
     (if ma60 = None then Insufficient_data
      else if gt ma5 ma20 \<and> gt ma20 ma60 then Bullish
      else if lt ma5 ma20 \<and> lt ma20 ma60 then Bearish
      else if gt (Some cl) ma60 \<and> gt ma5 ma20 then Rebound
      else Consolidation)"

text \<open>\<open>No_data\<close> is "wu shuju", \<open>Above_year_line\<close> "zhanshang nianxian", \<open>Below_year_line\<close>
  "nianxian xiafang"; \<open>Golden_cross\<close> is "jincha" and \<open>Death_cross\<close> "sicha"; \<open>Volume_up\<close> is
  "fangliang" and \<open>Volume_down\<close> "suoliang".\<close>

datatype year_label = No_data | Above_year_line | Below_year_line

datatype cross = Golden_cross | Death_cross

datatype vol_label = Volume_up | Volume_down

text \<open>Section 3, B to F (lines 121 to 153).  \<open>crow\<close> is the row \<^verbatim>\<open>curr = df.iloc[idx]\<close>.\<close>

definition year_line :: "irow \<Rightarrow> year_label \<times> real" where
  "year_line crow =
     (case MA250 crow of
        None \<Rightarrow> (No_data, 0)
      | Some ma250 \<Rightarrow>
          (if close crow > ma250 then Above_year_line else Below_year_line,
           py_round ((close crow - ma250) / ma250 * 100) 1))"

definition macd_state_of :: "irow \<Rightarrow> cross" where
  "macd_state_of crow = (if gt (DIF crow) (DEA crow) then Golden_cross else Death_cross)"

definition kdj_state_of :: "irow \<Rightarrow> cross" where
  "kdj_state_of crow =
     (case KD crow of
        None \<Rightarrow> Death_cross
      | Some (k, d) \<Rightarrow> if gt k d then Golden_cross else Death_cross)"

definition vol_ratio_of :: "irow \<Rightarrow> real" where
  "vol_ratio_of crow =
     (case VOL_MA5 crow of
        None \<Rightarrow> 0
      | Some v \<Rightarrow> if v > 0 then py_round (volume crow / v) 2 else 0)"

text \<open>\<^verbatim>\<open>.max()\<close> and \<^verbatim>\<open>.min()\<close> of a column of numbers.  Both callers pass a column that is not
  empty, so the first equation is not reached.\<close>

fun col_max :: "real list \<Rightarrow> real" where
  "col_max [] = 0"
| "col_max (x # xs) = fold max xs x"

fun col_min :: "real list \<Rightarrow> real" where
  "col_min [] = 0"
| "col_min (x # xs) = fold min xs x"

text \<open>Section 4 (lines 155 to 171).  \<open>Above_month_line\<close> is "zhanshang yuexian", \<open>MACD_golden\<close>
  "MACD jincha", \<open>Volume_surge\<close> "fangliang"; \<open>Joined\<close> is the text \<^verbatim>\<open>"+".join(match_reason)\<close> and
  \<open>Watchlist_observation\<close> the text "zixuan guancha".\<close>

datatype reason = Above_month_line | MACD_golden | Volume_surge

datatype match_text = Joined "reason list" | Watchlist_observation

definition cond1 :: "irow \<Rightarrow> bool" where
  "cond1 crow = gt (Some (close crow)) (MA20 crow)"

definition cond2 :: "irow \<Rightarrow> bool" where
  "cond2 crow = (macd_state_of crow = Golden_cross \<or> kdj_state_of crow = Golden_cross)"

definition strategy_pass :: "irow \<Rightarrow> bool" where
  "strategy_pass crow = (cond1 crow \<or> cond2 crow)"

definition match_reason :: "irow \<Rightarrow> reason list" where
  "match_reason crow =
     (if cond1 crow then [Above_month_line] else []) @
     (if macd_state_of crow = Golden_cross then [MACD_golden] else []) @
     (if vol_ratio_of crow > 1.5 then [Volume_surge] else [])"

definition match_str :: "irow \<Rightarrow> match_text" where
  "match_str crow =
     (if match_reason crow \<noteq> [] then Joined (match_reason crow) else Watchlist_observation)"

text \<open>Section 6 (lines 207 to 224): the four backtest columns, in percent.\<close>

record forward_returns =
  T5 :: real
  T10 :: real
  T30 :: real
  max_gain :: real

definition backtest_returns :: "row list \<Rightarrow> nat \<Rightarrow> real \<Rightarrow> forward_returns" where
  "backtest_returns df idx buy_price =
     (let future_df = drop (idx + 1) df;
          pct = (\<lambda>p. py_round ((p - buy_price) / buy_price * 100) 2)
      in if length future_df > 0 then
           \<lparr>T5 = (if length future_df \<ge> 5 then pct (close (future_df ! 4)) else 0),
            T10 = (if length future_df \<ge> 10 then pct (close (future_df ! 9)) else 0),
            T30 = (if length future_df \<ge> 30 then pct (close (future_df ! 29)) else 0),
            max_gain = pct (col_max (map high (take 30 future_df)))\<rparr>
         else \<lparr>T5 = 0, T10 = 0, T30 = 0, max_gain = 0\<rparr>)"

text \<open>The dictionary \<^verbatim>\<open>res\<close> (lines 178 to 205, and the backtest columns when the mode is
  \<^verbatim>\<open>"backtest"\<close>).  The two empty texts for the advisory layer are left out.\<close>

record result =
  res_code :: string
  res_name :: string
  res_date :: date
  buy_price :: real
  res_RSI :: real
  vol_ratio :: real
  ma_state :: ma_label
  year_line_state :: "year_label \<times> real"
  macd_state :: cross
  kdj_state :: cross
  vol_state :: vol_label
  high_30d :: real
  low_30d :: real
  pressure_dist :: real
  support_dist :: real
  trend :: "real list"
  match :: match_text
  is_watchlist :: bool
  forward :: "forward_returns option"

definition build_result ::
  "row list \<Rightarrow> irow \<Rightarrow> nat \<Rightarrow> string \<Rightarrow> string \<Rightarrow> bool \<Rightarrow> mode \<Rightarrow> result" where
  "build_result df crow idx cd nm is_vip md =
     (let start_idx = max 0 (idx - 30);
          period_df = take (idx + 1 - start_idx) (drop start_idx df);
          hi = col_max (map high period_df);
          lo = col_min (map low period_df);
          recent_prices = map close (take 5 (drop (idx - 4) df))
      in \<lparr>res_code = cd, res_name = nm, res_date = date crow, buy_price = close crow,
          res_RSI = (case RSI crow of Some r \<Rightarrow> py_round r 2 | None \<Rightarrow> 0),
          vol_ratio = vol_ratio_of crow,
          ma_state = get_ma_state (close crow) (MA5 crow) (MA20 crow) (MA60 crow),
          year_line_state = year_line crow,
          macd_state = macd_state_of crow,
          kdj_state = kdj_state_of crow,
          vol_state = (if vol_ratio_of crow > 1.2 then Volume_up else Volume_down),
          high_30d = py_round hi 2, low_30d = py_round lo 2,
          pressure_dist = py_round ((hi - close crow) / close crow * 100) 1,
          support_dist = py_round ((close crow - lo) / close crow * 100) 1,
          trend = map (\<lambda>p. py_round p 2) recent_prices,
          match = match_str crow,
          is_watchlist = is_vip,
          forward = (if md = Backtest then Some (backtest_returns df idx (close crow)) else None)\<rparr>)"

text \<open>
  \<^verbatim>\<open>_process_one_stock\<close>.  \<open>df\<close> is the table \<^verbatim>\<open>pd.read_csv(file_path)\<close> returns, \<open>cd\<close> and \<open>nm\<close>
  are the code and the name cut out of the file's name.  The frame holds calendar days and
  numbers: a file on which \<^verbatim>\<open>pd.read_csv\<close> or \<^verbatim>\<open>pd.to_datetime\<close> raises is outside the model
  (the function returns \<^verbatim>\<open>None\<close> on it, by the \<^verbatim>\<open>except\<close> of line 227).  Prices are not zero in
  the data; where the program divides by a price that is zero it gets an infinite value or
  \<^verbatim>\<open>NaN\<close>, while a quotient by zero is zero here.
\<close>

definition process_one_stock ::
  "ta_lib \<Rightarrow> row list \<Rightarrow> string \<Rightarrow> string \<Rightarrow> string set \<Rightarrow> mode \<Rightarrow> scope \<Rightarrow> date option
     \<Rightarrow> result option" where
  "process_one_stock ta df cd nm watchlist_set md sc bt_date =
     (if length df < 60 then None
      else let is_vip = (cd \<in> watchlist_set)
        in if sc = Watchlist_only \<and> \<not> is_vip then None
           else case with_indicators ta df of
             None \<Rightarrow> None
           | Some idf \<Rightarrow>
               (case evaluation_index md bt_date df of
                  None \<Rightarrow> None
                | Some idx \<Rightarrow>
                    (let crow = idf ! idx
                     in if \<not> strategy_pass crow \<and> \<not> is_vip then None
                        else Some (build_result df crow idx cd nm is_vip md))))"

section \<open>The indicators of the library\<close>

text \<open>
  The functions \<^verbatim>\<open>sma\<close>, \<^verbatim>\<open>macd\<close> and \<^verbatim>\<open>rsi\<close> belong to \<^verbatim>\<open>pandas_ta\<close>, which the repository
  imports and does not contain.  The spec names them: moving averages over the closes,
  absent while the window exceeds the history; MACD(12,26,9) with DIF and DEA; RSI(14).
  They get their usual definitions below, over the reals.
\<close>

text \<open>Modelled from the spec: \<^verbatim>\<open>pandas_ta.sma\<close>, missing from the sources.  The cell \<open>i\<close> is the
  mean of the \<open>n\<close> values that end at \<open>i\<close>, and is empty while fewer than \<open>n\<close> values exist.\<close>

definition sma :: "real list \<Rightarrow> nat \<Rightarrow> column" where
  "sma xs n =
     map (\<lambda>i. if n = 0 \<or> i + 1 < n then None
              else Some (sum_list (take n (drop (i + 1 - n) xs)) / real n))
       [0 ..< length xs]"

text \<open>Modelled from the spec: the running average inside \<^verbatim>\<open>pandas_ta.macd\<close> and \<^verbatim>\<open>pandas_ta.rsi\<close>,
  missing from the sources: \<open>y' = a * x + (1 - a) * y\<close>, from a start value \<open>y\<close>.\<close>

fun smooth :: "real \<Rightarrow> real \<Rightarrow> real list \<Rightarrow> real list" where
  "smooth a y [] = []"
| "smooth a y (x # xs) = (a * x + (1 - a) * y) # smooth a (a * x + (1 - a) * y) xs"

text \<open>Modelled from the spec: the values of an average of window \<open>n\<close> (missing from the
  sources) from position \<open>n - 1\<close> on: the mean of the first \<open>n\<close> inputs, then the running
  average of the inputs that follow.\<close>

definition seeded_average :: "real \<Rightarrow> nat \<Rightarrow> real list \<Rightarrow> real list" where
  "seeded_average a n xs =
     (if n = 0 \<or> length xs < n then []
      else (sum_list (take n xs) / real n) #
           smooth a (sum_list (take n xs) / real n) (drop n xs))"

text \<open>Modelled from the spec: the exponential average of window \<open>n\<close> (\<^verbatim>\<open>pandas_ta.ema\<close>, missing
  from the sources), with the weight \<open>2 / (n + 1)\<close>.\<close>

definition ema_values :: "nat \<Rightarrow> real list \<Rightarrow> real list" where
  "ema_values n xs = seeded_average (2 / (real n + 1)) n xs"

text \<open>Modelled from the spec: the weighted mean inside \<^verbatim>\<open>pandas_ta.rma\<close> (missing from the
  sources): the running sums of the inputs and of their weights, an input \<open>j\<close> steps back
  having the weight \<open>(1 - a) ^ j\<close>.\<close>

fun weighted_sums :: "real \<Rightarrow> real \<times> real \<Rightarrow> real list \<Rightarrow> (real \<times> real) list" where
  "weighted_sums a s [] = []"
| "weighted_sums a s (x # xs) =
     (fst s * (1 - a) + x, snd s * (1 - a) + 1) #
     weighted_sums a (fst s * (1 - a) + x, snd s * (1 - a) + 1) xs"

text \<open>Modelled from the spec: the smoothed average of window \<open>n\<close> (\<^verbatim>\<open>pandas_ta.rma\<close>, missing from
  the sources), from position \<open>n - 1\<close> on: the weighted mean with \<open>a = 1 / n\<close>.\<close>

definition rma_values :: "nat \<Rightarrow> real list \<Rightarrow> real list" where
  "rma_values n xs =
     drop (n - 1) (map (\<lambda>s. fst s / snd s) (weighted_sums (1 / real n) (0, 0) xs))"

text \<open>A column of \<open>len\<close> cells that is empty before position \<open>k\<close> and holds \<open>vals\<close> from there.\<close>

definition column_from :: "nat \<Rightarrow> 'a option list \<Rightarrow> nat \<Rightarrow> 'a option list" where
  "column_from k vals len = take len (replicate k None @ vals @ replicate len None)"

text \<open>Modelled from the spec: the MACD line of \<^verbatim>\<open>pandas_ta.macd\<close> (missing from the sources),
  from position 25 on: the average of 12 minus the average of 26.\<close>

definition macd_line :: "real list \<Rightarrow> real list" where
  "macd_line xs = map2 (-) (drop 14 (ema_values 12 xs)) (ema_values 26 xs)"

text \<open>Modelled from the spec: the signal of \<^verbatim>\<open>pandas_ta.macd\<close> (missing from the sources), from
  position 33 on: the average of 9 of the MACD line.\<close>

definition macd_signal :: "real list \<Rightarrow> real list" where
  "macd_signal xs = ema_values 9 (macd_line xs)"

text \<open>Modelled from the spec: the histogram of \<^verbatim>\<open>pandas_ta.macd\<close> (missing from the sources),
  from position 33 on: the MACD line minus its signal.\<close>

definition macd_histogram :: "real list \<Rightarrow> real list" where
  "macd_histogram xs = map2 (-) (drop 8 (macd_line xs)) (macd_signal xs)"

text \<open>Modelled from the spec: \<^verbatim>\<open>pandas_ta.macd\<close>, missing from the sources.  It returns \<^verbatim>\<open>None\<close> on
  fewer than 26 values, and else the frame whose rows hold the line, the histogram and the
  signal, in this order.\<close>

definition macd :: "real list \<Rightarrow> (real option \<times> real option \<times> real option) list option" where
  "macd xs =
     (if length xs < 26 then None
      else Some (map (\<lambda>i.
             (cell (column_from 25 (map Some (macd_line xs)) (length xs)) i,
              cell (column_from 33 (map Some (macd_histogram xs)) (length xs)) i,
              cell (column_from 33 (map Some (macd_signal xs)) (length xs)) i))
           [0 ..< length xs]))"

text \<open>Modelled from the spec: the values of \<^verbatim>\<open>pandas_ta.rsi\<close> (missing from the sources) from
  position \<open>n\<close> on: a hundred times the smoothed gain over the sum of the smoothed gain and
  the smoothed loss, and \<^verbatim>\<open>NaN\<close> where that sum is zero.\<close>

definition rsi_values :: "real list \<Rightarrow> nat \<Rightarrow> real option list" where
  "rsi_values xs n =
     (let diffs = map2 (\<lambda>x x'. x' - x) xs (tl xs);
          gain = rma_values n (map (\<lambda>d. max d 0) diffs);
          loss = rma_values n (map (\<lambda>d. max (- d) 0) diffs)
      in map2 (\<lambda>g l. if g + l = 0 then None else Some (100 * g / (g + l))) gain loss)"

text \<open>Modelled from the spec: \<^verbatim>\<open>pandas_ta.rsi\<close>, missing from the sources, as a column.\<close>

definition rsi :: "real list \<Rightarrow> nat \<Rightarrow> column" where
  "rsi xs n = column_from n (rsi_values xs n) (length xs)"

text \<open>Modelled from the spec: the library with the three indicators above; its \<^verbatim>\<open>kdj\<close> is left
  open.\<close>

definition modelled_ta ::
  "(real list \<Rightarrow> real list \<Rightarrow> real list \<Rightarrow> (real option \<times> real option \<times> real option) list option)
     \<Rightarrow> ta_lib" where
  "modelled_ta kdj = \<lparr>ta_sma = sma, ta_macd = macd, ta_kdj = kdj, ta_rsi = rsi\<rparr>"

text \<open>The values the frame holds in a row for the averages, the MACD and the RSI.\<close>

definition indicator_values ::
  "irow \<Rightarrow> real option \<times> real option \<times> real option \<times> real option \<times> real option \<times> real option
     \<times> real option" where
  "indicator_values r = (MA5 r, MA20 r, MA60 r, MA250 r, DIF r, DEA r, RSI r)"

section \<open>Rows for examples\<close>

text \<open>A row for examples: one price for the four price columns.\<close>

definition bar :: "date \<Rightarrow> real \<Rightarrow> row" where
  "bar d c = \<lparr>date = d, code = ''sh.600000'', openp = c, high = c, low = c, close = c,
     volume = 1000, amount = ''0'', adjustflag = ''2'', turn = ''0'', pctChg = 0\<rparr>"

text \<open>A library for examples, with constant answers: every average is the input plus
  \<open>shift\<close>; in every row the MACD frame holds \<open>dif\<close> and \<open>dea\<close> in its columns 0 and 1, the KDJ
  frame holds \<open>k\<close> and \<open>d\<close>, and the RSI is 50.\<close>

definition example_ta :: "real \<Rightarrow> real \<Rightarrow> real \<Rightarrow> real \<Rightarrow> real \<Rightarrow> ta_lib" where
  "example_ta shift dif dea k d =
     \<lparr>ta_sma = (\<lambda>xs n. map (\<lambda>x. Some (x + shift)) xs),
      ta_macd = (\<lambda>xs. Some (map (\<lambda>x. (Some dif, Some dea, None)) xs)),
      ta_kdj = (\<lambda>hs ls cs. Some (map (\<lambda>x. (Some k, Some d, None)) cs)),
      ta_rsi = (\<lambda>xs n. map (\<lambda>x. Some 50) xs)\<rparr>"

text \<open>A series for examples: \<open>n\<close> rows on consecutive days of a calendar of twelve months of
  twenty-eight days, starting on 2020-01-01, every price of row \<open>k\<close> being \<open>price k\<close>.\<close>

definition day_n :: "nat \<Rightarrow> date" where
  "day_n k = (2020 + k div 336, 1 + (k mod 336) div 28, 1 + k mod 28)"

definition series :: "nat \<Rightarrow> (nat \<Rightarrow> real) \<Rightarrow> row list" where
  "series n price = map (\<lambda>k. bar (day_n k) (price k)) [0 ..< n]"

text \<open>Seventy-one rows at the price 10, but 11 in row 65 and 12 in row 70; and the code and
  the name of the examples.\<close>

definition bumpy_series :: "row list" where
  "bumpy_series = series 71 (\<lambda>k. if k = 65 then 11 else if k = 70 then 12 else 10)"

definition the_code :: string where
  "the_code = ''sh.600000''"

definition the_name :: string where
  "the_name = ''PFYH''"

text \<open>Sixty rows whose price rises by 2 a row, from 40 to 138 in row 49, and then falls by 2 a
  row, from 138 in row 50 to 120 in row 59.\<close>

definition kink_series :: "row list" where
  "kink_series = series 60 (\<lambda>k. if k < 50 then 40 + 2 * real k else 138 - 2 * real (k - 50))"

text \<open>A KDJ function for examples: in every row of its frame \<open>K\<close> is 5 and \<open>D\<close> is 18.\<close>

definition low_kdj ::
  "real list \<Rightarrow> real list \<Rightarrow> real list \<Rightarrow> (real option \<times> real option \<times> real option) list option"
  where
  "low_kdj hs ls cs = Some (map (\<lambda>x. (Some 5, Some 18, None)) cs)"

section \<open>Properties of the series store\<close>

lemma row_of_map_of: "row_of df d = map_of (map (\<lambda>r. (date r, r)) df) d"
  by (induction df) (auto simp: row_of_def)

lemma row_of_append:
  "row_of (xs @ ys) d = (case row_of xs d of Some r \<Rightarrow> Some r | None \<Rightarrow> row_of ys d)"
  by (induction xs) (auto simp: row_of_def)

lemma row_of_None_iff: "row_of df d = None \<longleftrightarrow> d \<notin> set (map date df)"
  by (induction df) (auto simp: row_of_def)

lemma row_of_SomeD: "row_of df d = Some r \<Longrightarrow> r \<in> set df \<and> date r = d"
  by (induction df) (auto simp: row_of_def split: if_splits)

lemma last_row_of_append:
  "last_row_of (xs @ ys) d = (case last_row_of ys d of Some r \<Rightarrow> Some r | None \<Rightarrow> last_row_of xs d)"
  by (simp add: last_row_of_def row_of_append split: option.splits)

lemma last_row_of_None_iff: "last_row_of df d = None \<longleftrightarrow> d \<notin> set (map date df)"
  by (simp add: last_row_of_def row_of_None_iff)

lemma last_row_of_NoneI: "d \<notin> date ` set df \<Longrightarrow> last_row_of df d = None"
  by (simp add: last_row_of_None_iff)

lemma last_row_of_Cons:
  "last_row_of (r # rs) d = (case last_row_of rs d of Some r' \<Rightarrow> Some r' | None \<Rightarrow> if date r = d then Some r else None)"
  by (simp add: last_row_of_def row_of_append) (simp add: row_of_def split: option.splits)

lemma set_drop_duplicates_last: "set (map date (drop_duplicates_last df)) = set (map date df)"
  by (induction df) auto

lemma distinct_drop_duplicates_last: "distinct (map date (drop_duplicates_last df))"
  by (induction df) (auto simp: set_drop_duplicates_last[simplified])

lemma row_of_drop_duplicates_last: "row_of (drop_duplicates_last df) d = last_row_of df d"
proof (induction df)
  case Nil
  show ?case by (simp add: last_row_of_def)
next
  case (Cons r rs)
  show ?case
  proof (cases "date r \<in> set (map date rs)")
    case True
    then show ?thesis using Cons
      by (auto simp: last_row_of_Cons last_row_of_None_iff split: option.splits)
  next
    case False
    then show ?thesis using Cons
      by (auto simp: last_row_of_Cons row_of_def last_row_of_NoneI split: option.splits)
  qed
qed

lemma row_of_distinct_set:
  assumes "distinct (map date xs)" "distinct (map date ys)" "set xs = set ys"
  shows "row_of xs d = row_of ys d"
proof -
  have "map_of (map (\<lambda>r. (date r, r)) xs) = map_of (map (\<lambda>r. (date r, r)) ys)"
    by (rule map_of_inject_set[THEN iffD2]) (use assms in \<open>auto simp: comp_def\<close>)
  then show ?thesis by (simp add: row_of_map_of)
qed

lemma row_of_sort_values:
  "distinct (map date df) \<Longrightarrow> row_of (sort_values df) d = row_of df d"
  by (rule row_of_distinct_set) (auto simp: sort_values_def distinct_map)

lemma row_of_append_merge:
  "row_of (append_merge old_df new_df) d =
     (case last_row_of new_df d of Some r \<Rightarrow> Some r | None \<Rightarrow> last_row_of old_df d)"
  by (simp add: append_merge_def row_of_sort_values distinct_drop_duplicates_last
      row_of_drop_duplicates_last last_row_of_append)

lemma distinct_append_merge: "distinct (map date (append_merge old_df new_df))"
proof -
  have "distinct (map date (drop_duplicates_last (old_df @ new_df)))"
    by (rule distinct_drop_duplicates_last)
  then show ?thesis
    unfolding append_merge_def sort_values_def
    by (metis distinct_map distinct_sort set_sort)
qed

lemma sorted_append_merge: "sorted (map date (append_merge old_df new_df))"
  by (simp add: append_merge_def sort_values_def)

lemma dates_append_merge:
  "set (map date (append_merge old_df new_df)) = set (map date old_df) \<union> set (map date new_df)"
  using set_drop_duplicates_last[of "old_df @ new_df"]
  by (simp add: append_merge_def sort_values_def)

text \<open>Two tables sorted by day, without a repeated day, that hold the same row for every
  day are the same table.\<close>

lemma sorted_distinct_row_of_unique:
  assumes "sorted (map date xs)" "distinct (map date xs)"
    and "sorted (map date ys)" "distinct (map date ys)"
    and "\<And>d. row_of xs d = row_of ys d"
  shows "xs = ys"
proof -
  have m: "map_of (map (\<lambda>r. (date r, r)) xs) = map_of (map (\<lambda>r. (date r, r)) ys)"
    using assms(5) by (auto simp: row_of_map_of)
  have s: "set (map (\<lambda>r. (date r, r)) xs) = set (map (\<lambda>r. (date r, r)) ys)"
    by (rule map_of_inject_set[THEN iffD1, OF _ _ m]) (use assms in \<open>auto simp: comp_def\<close>)
  have "set xs = set ys"
  proof -
    have "snd ` set (map (\<lambda>r. (date r, r)) xs) = snd ` set (map (\<lambda>r. (date r, r)) ys)"
      using s by simp
    then show ?thesis by (simp add: image_image)
  qed
  moreover have "inj_on date (set xs \<union> set ys)"
    using assms(2) \<open>set xs = set ys\<close> by (simp add: distinct_map)
  ultimately show ?thesis
    using assms(1-4) by (intro map_sorted_distinct_set_unique[of date])
qed

lemma last_row_of_distinct:
  "distinct (map date df) \<Longrightarrow> last_row_of df d = row_of df d"
  unfolding last_row_of_def by (rule row_of_distinct_set) (simp_all add: rev_map[symmetric])

lemma append_merge_twice:
  "append_merge (append_merge old_df new_df) new_df = append_merge old_df new_df"
proof (rule sorted_distinct_row_of_unique)
  fix d
  show "row_of (append_merge (append_merge old_df new_df) new_df) d = row_of (append_merge old_df new_df) d"
    by (simp add: row_of_append_merge last_row_of_distinct distinct_append_merge split: option.splits)
qed (simp_all add: sorted_append_merge distinct_append_merge)


lemma write_series_append_ok:
  "write_series Append new_df (Some (Table old_df)) Write_ok w2 =
     (True, Some (Table (append_merge old_df new_df)))"
  by (simp add: write_series_def exists_file_def)

text \<open>
  Claim C1.  A task in append mode whose file holds a readable table \<open>old_df\<close>, whose query
  delivers a non-empty batch and whose write goes through, is filed as succeeded and leaves
  the table \<open>append_merge old_df data_list\<close>.  That table is ascending by date, holds every
  date once, holds exactly the dates of the old table and of the batch, and for every date
  holds the batch's row when the batch has the date (its last row for that date, should
  the batch repeat it) and the old table's row otherwise.
\<close>

theorem append_merge_union_keeps_incoming:
  assumes "data_list \<noteq> []"
  shows "download_task (Data data_list) Append (Some (Table old_df)) Write_ok w2 =
           (Succeeded, Some (Table (append_merge old_df data_list)))
       \<and> sorted (map date (append_merge old_df data_list))
       \<and> distinct (map date (append_merge old_df data_list))
       \<and> set (map date (append_merge old_df data_list)) =
             set (map date old_df) \<union> set (map date data_list)
       \<and> (\<forall>d. row_of (append_merge old_df data_list) d =
             (case last_row_of data_list d of
                Some r \<Rightarrow> Some r
              | None \<Rightarrow> last_row_of old_df d))"
proof -
  have "download_task (Data data_list) Append (Some (Table old_df)) Write_ok w2 =
          (Succeeded, Some (Table (append_merge old_df data_list)))"
    using assms by (simp add: download_task_def write_series_append_ok)
  then show ?thesis
    using sorted_append_merge distinct_append_merge dates_append_merge row_of_append_merge
    by blast
qed

theorem append_merge_union_keeps_incoming_witness:
  "[bar (2024, 1, 2) 11, bar (2024, 1, 4) 12] \<noteq> []
   \<and> download_task (Data [bar (2024, 1, 2) 11, bar (2024, 1, 4) 12]) Append
        (Some (Table [bar (2024, 1, 2) 10, bar (2024, 1, 3) 10])) Write_ok Write_ok =
       (Succeeded, Some (Table [bar (2024, 1, 2) 11, bar (2024, 1, 3) 10, bar (2024, 1, 4) 12]))
   \<and> row_of (append_merge [bar (2024, 1, 2) 10, bar (2024, 1, 3) 10]
          [bar (2024, 1, 2) 11, bar (2024, 1, 4) 12]) (2024, 1, 2) = Some (bar (2024, 1, 2) 11)"
proof -
  let ?old = "[bar (2024, 1, 2) 10, bar (2024, 1, 3) 10]"
  let ?new = "[bar (2024, 1, 2) 11, bar (2024, 1, 4) 12]"
  have ne: "?new \<noteq> []" by simp
  have m: "append_merge ?old ?new =
           [bar (2024, 1, 2) 11, bar (2024, 1, 3) 10, bar (2024, 1, 4) 12]"
    by (simp add: append_merge_def sort_values_def bar_def)
  have d: "last_row_of ?new (2024, 1, 2) = Some (bar (2024, 1, 2) 11)"
    by (simp add: last_row_of_def row_of_def bar_def)
  note t = append_merge_union_keeps_incoming [OF ne, of ?old Write_ok]
  from t have a: "download_task (Data ?new) Append (Some (Table ?old)) Write_ok Write_ok =
      (Succeeded, Some (Table (append_merge ?old ?new)))"
    by (rule conjunct1)
  from t have b: "row_of (append_merge ?old ?new) (2024, 1, 2) =
      (case last_row_of ?new (2024, 1, 2) of Some r \<Rightarrow> Some r
       | None \<Rightarrow> last_row_of ?old (2024, 1, 2))"
    by blast
  have b': "row_of (append_merge ?old ?new) (2024, 1, 2) = Some (bar (2024, 1, 2) 11)"
    using b by (simp only: d option.case)
  show ?thesis
    using ne a[unfolded m] b' by (intro conjI)
qed

text \<open>
  Claim C10.  Merging a batch into a table and then merging the same batch into the result
  gives the result again, row for row and in the same order; so a second run of the same
  append task with the same batch leaves the file as the first run left it.  No date is
  repeated and the order stays ascending.
\<close>

theorem append_merge_idempotent:
  "append_merge (append_merge old_df data_list) data_list = append_merge old_df data_list
   \<and> snd (download_task (Data data_list) Append
          (snd (download_task (Data data_list) Append (Some (Table old_df)) Write_ok Write_ok))
          Write_ok Write_ok) =
       snd (download_task (Data data_list) Append (Some (Table old_df)) Write_ok Write_ok)
   \<and> distinct (map date (append_merge (append_merge old_df data_list) data_list))
   \<and> sorted (map date (append_merge (append_merge old_df data_list) data_list))"
  by (cases "data_list = []")
    (simp_all add: append_merge_twice download_task_def write_series_append_ok
      distinct_append_merge sorted_append_merge)

theorem append_merge_idempotent_witness:
  "append_merge (append_merge [bar (2024, 1, 2) 10, bar (2024, 1, 3) 10]
      [bar (2024, 1, 4) 12, bar (2024, 1, 2) 11]) [bar (2024, 1, 4) 12, bar (2024, 1, 2) 11] =
     [bar (2024, 1, 2) 11, bar (2024, 1, 3) 10, bar (2024, 1, 4) 12]"
proof -
  let ?old = "[bar (2024, 1, 2) 10, bar (2024, 1, 3) 10]"
  let ?new = "[bar (2024, 1, 4) 12, bar (2024, 1, 2) 11]"
  have m: "append_merge ?old ?new =
        [bar (2024, 1, 2) 11, bar (2024, 1, 3) 10, bar (2024, 1, 4) 12]"
    by (simp add: append_merge_def sort_values_def bar_def)
  have "append_merge (append_merge ?old ?new) ?new = append_merge ?old ?new"
    using append_merge_idempotent [of ?old ?new] by (rule conjunct1)
  then show ?thesis
    by (simp only: m)
qed

text \<open>
  Claim C2, as stated, fails.  In append mode on a file that \<^verbatim>\<open>pd.read_csv\<close> cannot read, the
  bare \<^verbatim>\<open>except\<close> of line 150 writes the batch over the file, and the task is filed as succeeded;
  the same happens to a readable table when the write of the merged table raises: the old rows
  that the batch does not repeat are gone.
\<close>

theorem merge_failure_overwrites_counterexample:
  "read_csv (Some Garbled) = None
   \<and> download_task (Data [bar (2024, 1, 4) 12]) Append (Some Garbled) Write_ok Write_ok =
       (Succeeded, Some (Table [bar (2024, 1, 4) 12]))
   \<and> Some (Table [bar (2024, 1, 4) 12]) \<noteq> Some Garbled
   \<and> download_task (Data [bar (2024, 1, 4) 12]) Append
        (Some (Table [bar (2024, 1, 2) 10, bar (2024, 1, 3) 10]))
        (Write_raises (Some (Table [bar (2024, 1, 2) 10]))) Write_ok =
       (Succeeded, Some (Table [bar (2024, 1, 4) 12]))
   \<and> Some (Table [bar (2024, 1, 4) 12]) \<noteq>
       Some (Table [bar (2024, 1, 2) 10, bar (2024, 1, 3) 10])"
  by (simp add: download_task_def write_series_def exists_file_def)

text \<open>
  Claim C2, amended.  The merge rewrites the file in place and is not atomic.  For a non-empty
  batch in append mode: when the old file cannot be read, or the write of the merged table
  raises, the worker writes the batch alone over the file; if that write goes through, the
  file holds exactly the batch and the task is filed as succeeded.  The task is filed as
  failed exactly when the last write it attempts raises, and the file is then what that
  write left.  The file is kept as it was when the query raises, answers with an error code
  (task failed) or delivers no row (task succeeded).
\<close>

theorem merge_falls_back_to_overwrite:
  assumes "data_list \<noteq> []"
  shows
    "(exists_file f \<and> read_csv f = None \<longrightarrow>
        download_task (Data data_list) Append f Write_ok w2 =
          (Succeeded, Some (Table data_list))
      \<and> download_task (Data data_list) Append f (Write_raises left) w2 = (Failed, left))
   \<and> download_task (Data data_list) Append (Some (Table old_df)) (Write_raises left) Write_ok =
       (Succeeded, Some (Table data_list))
   \<and> download_task (Data data_list) Append (Some (Table old_df)) (Write_raises left)
        (Write_raises left') = (Failed, left')
   \<and> download_task Query_raises mode f w1 w2 = (Failed, f)
   \<and> download_task Error_code mode f w1 w2 = (Failed, f)
   \<and> download_task (Data []) mode f w1 w2 = (Succeeded, f)"
  using assms
  by (auto simp: download_task_def write_series_def exists_file_def)

theorem merge_falls_back_to_overwrite_witness:
  "[bar (2024, 1, 4) 12] \<noteq> []
   \<and> exists_file (Some Garbled) \<and> read_csv (Some Garbled) = None
   \<and> download_task (Data [bar (2024, 1, 4) 12]) Append (Some Garbled) Write_ok Write_ok =
       (Succeeded, Some (Table [bar (2024, 1, 4) 12]))
   \<and> download_task (Data [bar (2024, 1, 4) 12]) Append (Some Garbled)
        (Write_raises (Some Garbled)) Write_ok = (Failed, Some Garbled)"
proof -
  have ne: "[bar (2024, 1, 4) 12] \<noteq> []" by simp
  have ex: "exists_file (Some Garbled) \<and> read_csv (Some Garbled) = None"
    by (simp add: exists_file_def)
  note t = merge_falls_back_to_overwrite
    [OF ne, of "Some Garbled" Write_ok "Some Garbled", THEN conjunct1, rule_format, OF ex]
  show ?thesis
    using ne ex t by (intro conjI) blast+
qed

section \<open>Properties of the download rounds\<close>

lemma take_result_simps [simp]:
  "abort (take_result st r) = abort st"
  "rounds_begun (take_result st r) = rounds_begun st"
  "results_taken (take_result st r) = results_taken st + 1"
  "consecutive_fail (take_result st r) =
     (if fst r \<noteq> [] then 0 else consecutive_fail st + length (snd r))"
  "finished_codes (take_result st r) = finished_codes st \<union> set (map fst (fst r))"
  "final_success_count (take_result st r) = final_success_count st + length (fst r)"
  by (simp_all add: take_result_def split: prod.splits)

lemma consume_results_rounds_begun [simp]:
  "rounds_begun (consume_results st rs) = rounds_begun st"
  by (induction rs arbitrary: st) (simp_all add: Let_def)

lemma consume_results_stops:
  "\<not> abort st \<Longrightarrow> abort (consume_results st pre) \<Longrightarrow>
     consume_results st (pre @ later) = consume_results st pre"
  by (induction pre arbitrary: st) (auto simp: Let_def split: if_splits)

lemma consume_results_append:
  "\<not> abort st \<Longrightarrow> \<not> abort (consume_results st pre) \<Longrightarrow>
     consume_results st (pre @ post) = consume_results (consume_results st pre) post"
  by (induction pre arbitrary: st) (simp_all add: Let_def split: if_splits)


lemma consume_results_counter:
  assumes "\<not> abort st" "consecutive_fail st = 0" "\<not> abort (consume_results st rs)"
  shows "consecutive_fail (consume_results st rs) = trailing_failures rs"
  using assms(3)
proof (induction rs rule: rev_induct)
  case Nil
  then show ?case using assms(2) by (simp add: trailing_failures_def)
next
  case (snoc r rs)
  have na: "\<not> abort (consume_results st rs)"
    using snoc.prems consume_results_stops[OF assms(1), of rs "[r]"] by auto
  then have ih: "consecutive_fail (consume_results st rs) = trailing_failures rs"
    by (rule snoc.IH)
  have step: "consume_results st (rs @ [r]) = consume_results (consume_results st rs) [r]"
    using consume_results_append[OF assms(1) na] .
  show ?case
    using snoc.prems ih unfolding step
    by (auto simp: Let_def trailing_failures_def split: if_splits)
qed

lemma consume_results_trips:
  "consecutive_fail st < ABORT_THRESHOLD \<Longrightarrow> \<forall>r\<in>set rs. fst r = [] \<Longrightarrow>
   ABORT_THRESHOLD \<le> consecutive_fail st + sum_list (map (\<lambda>r. length (snd r)) rs) \<Longrightarrow>
   abort (consume_results st rs)"
  by (induction rs arbitrary: st) (auto simp: Let_def)

lemma consume_results_finished_failing:
  "\<forall>r\<in>set rs. fst r = [] \<Longrightarrow> finished_codes (consume_results st rs) = finished_codes st"
  by (induction rs arbitrary: st) (auto simp: Let_def)

lemma concat_chunks_of: "concat (chunks_of xs) = xs"
  by (induction xs rule: chunks_of.induct) (subst chunks_of.simps, auto)

lemma sum_length_chunks_of: "sum_list (map length (chunks_of xs)) = length xs"
  using arg_cong[OF concat_chunks_of[of xs], of length] by (simp add: length_concat)


lemma begin_round_simps [simp]:
  "consecutive_fail (begin_round st) = 0" "\<not> abort (begin_round st)"
  "rounds_begun (begin_round st) = rounds_begun st + 1"
  "finished_codes (begin_round st) = finished_codes st"
  by (simp_all add: begin_round_def)

lemma failures_of_round_chunks:
  "sum_list (map (\<lambda>c. length (fst c)) (round_chunks attempt batch)) = length batch"
  using sum_length_chunks_of[of batch] by (simp add: round_chunks_def comp_def)

lemma consume_results_no_trip:
  "\<forall>r\<in>set rs. fst r = [] \<Longrightarrow> \<not> abort st \<Longrightarrow>
   consecutive_fail st + sum_list (map (\<lambda>r. length (snd r)) rs) < ABORT_THRESHOLD \<Longrightarrow>
   \<not> abort (consume_results st rs)
   \<and> consecutive_fail (consume_results st rs) =
       consecutive_fail st + sum_list (map (\<lambda>r. length (snd r)) rs)"
  by (induction rs arbitrary: st) (auto simp: Let_def)

lemma failing_pool_no_success: "\<forall>r\<in>set (failing_pool attempt chunks). fst r = []"
  by (simp add: failing_pool_def)

lemma failing_pool_failures:
  "sum_list (map (\<lambda>r. length (snd r)) (failing_pool attempt (round_chunks attempt batch))) =
     length batch"
  using failures_of_round_chunks [of attempt batch] by (simp add: failing_pool_def comp_def)

lemma length_some_tasks [simp]: "length (some_tasks n) = n"
  by (simp add: some_tasks_def)

lemma some_tasks_eq_Nil [simp]: "some_tasks n = [] \<longleftrightarrow> n = 0"
  by (simp add: some_tasks_def)

lemma for_attempts_small_failing_batch:
  assumes "tasks \<noteq> []" "length tasks < ABORT_THRESHOLD"
  shows "finished_codes st = {} \<Longrightarrow> \<not> abort st \<Longrightarrow>
    \<not> abort (for_attempts failing_pool tasks attempts st)
    \<and> finished_codes (for_attempts failing_pool tasks attempts st) = {}
    \<and> rounds_begun (for_attempts failing_pool tasks attempts st) =
        rounds_begun st + length attempts"
proof (induction attempts arbitrary: st)
  case Nil
  then show ?case by simp
next
  case (Cons attempt attempts)
  let ?st1 = "run_round failing_pool attempt tasks st"
  have b: "filter (\<lambda>t. fst (fst t) \<notin> finished_codes st) tasks = tasks"
    using Cons.prems by simp
  have n: "\<not> abort ?st1 \<and> consecutive_fail ?st1 = 0 + length tasks"
    unfolding run_round_def
    using consume_results_no_trip [OF failing_pool_no_success, of "begin_round st" attempt
        "round_chunks attempt tasks"] assms(2)
    by (simp add: failing_pool_failures)
  have f: "finished_codes ?st1 = {}"
    unfolding run_round_def
    using consume_results_finished_failing [OF failing_pool_no_success] Cons.prems by simp
  have r: "rounds_begun ?st1 = rounds_begun st + 1"
    by (simp add: run_round_def)
  have "for_attempts failing_pool tasks (attempt # attempts) st =
      for_attempts failing_pool tasks attempts ?st1"
    using assms(1) n by (simp add: b Let_def)
  then show ?case
    using Cons.IH [OF f] n r by simp
qed

lemma chunks_of_some_tasks_70:
  "chunks_of (some_tasks 70) =
   [take 20 (some_tasks 70), take 20 (drop 20 (some_tasks 70)),
    take 20 (drop 40 (some_tasks 70)), take 20 (drop 60 (some_tasks 70))]"
  by (simp add: chunks_of.simps chunk_size_def)

text \<open>
  The counter starts again at zero when a round begins (line 271): failures do not add up
  across rounds.  Three tasks that fail in every round never reach \<open>ABORT_THRESHOLD\<close> within
  a round, and the run goes through its \<open>MAX_ATTEMPTS\<close> rounds.
\<close>

lemma small_failing_batch_runs_all_rounds:
  "abort (run failing_pool (some_tasks 3)) = False
   \<and> rounds_begun (run failing_pool (some_tasks 3)) = MAX_ATTEMPTS
   \<and> finished_codes (run failing_pool (some_tasks 3)) = {}"
  using for_attempts_small_failing_batch
    [of "some_tasks 3" initial_state "[1 ..< MAX_ATTEMPTS + 1]"]
  by (simp add: run_def ABORT_THRESHOLD_def initial_state_def)

lemma trailing_failures_Nil [simp]: "trailing_failures [] = 0"
  by (simp add: trailing_failures_def)

lemma trailing_failures_snoc:
  "trailing_failures (rs @ [r]) =
     (if fst r \<noteq> [] then 0 else trailing_failures rs + length (snd r))"
  by (simp add: trailing_failures_def)

lemma consume_results_taken:
  "\<not> abort st \<Longrightarrow> \<not> abort (consume_results st rs) \<Longrightarrow>
     results_taken (consume_results st rs) = results_taken st + length rs"
  by (induction rs arbitrary: st) (auto simp: Let_def split: if_splits)

lemma consume_results_snoc:
  assumes "\<not> abort st" "\<not> abort (consume_results st rs)"
  shows "consume_results st (rs @ [r]) =
     (let st1 = take_result (consume_results st rs) r
      in if consecutive_fail st1 \<ge> ABORT_THRESHOLD then st1\<lparr>abort := True\<rparr> else st1)"
  using consume_results_append [OF assms, of "[r]"] by (simp add: Let_def)

lemma consume_results_abort_iff:
  assumes "\<not> abort st" "consecutive_fail st = 0"
  shows "abort (consume_results st rs) \<longleftrightarrow>
     (\<exists>k. k \<le> length rs \<and> ABORT_THRESHOLD \<le> trailing_failures (take k rs))"
proof (induction rs rule: rev_induct)
  case Nil
  then show ?case using assms by (simp add: ABORT_THRESHOLD_def)
next
  case (snoc r rs)
  show ?case
  proof (cases "abort (consume_results st rs)")
    case True
    then obtain k where k: "k \<le> length rs" "ABORT_THRESHOLD \<le> trailing_failures (take k rs)"
      using snoc.IH by blast
    have "abort (consume_results st (rs @ [r]))"
      using consume_results_stops [OF assms(1) True, of "[r]"] True by simp
    moreover have "k \<le> length (rs @ [r]) \<and>
        ABORT_THRESHOLD \<le> trailing_failures (take k (rs @ [r]))"
      using k by simp
    ultimately show ?thesis by blast
  next
    case False
    have c: "consecutive_fail (consume_results st rs) = trailing_failures rs"
      using consume_results_counter [OF assms False] .
    have none: "\<And>k. k \<le> length rs \<Longrightarrow> \<not> ABORT_THRESHOLD \<le> trailing_failures (take k rs)"
      using False snoc.IH by blast
    have a: "abort (consume_results st (rs @ [r])) \<longleftrightarrow>
        ABORT_THRESHOLD \<le> trailing_failures (rs @ [r])"
      unfolding consume_results_snoc [OF assms(1) False]
      using False c by (simp add: Let_def trailing_failures_snoc)
    show ?thesis
    proof
      assume "abort (consume_results st (rs @ [r]))"
      then have "ABORT_THRESHOLD \<le> trailing_failures (take (length (rs @ [r])) (rs @ [r]))"
        using a by simp
      then show "\<exists>k. k \<le> length (rs @ [r]) \<and>
          ABORT_THRESHOLD \<le> trailing_failures (take k (rs @ [r]))"
        by blast
    next
      assume "\<exists>k. k \<le> length (rs @ [r]) \<and>
          ABORT_THRESHOLD \<le> trailing_failures (take k (rs @ [r]))"
      then obtain k where k: "k \<le> length (rs @ [r])"
        "ABORT_THRESHOLD \<le> trailing_failures (take k (rs @ [r]))"
        by blast
      have "k = length rs + 1"
      proof (rule ccontr)
        assume "k \<noteq> length rs + 1"
        then have "k \<le> length rs" using k(1) by simp
        then show False using none [of k] k(2) by simp
      qed
      then show "abort (consume_results st (rs @ [r]))"
        using a k(2) by simp
    qed
  qed
qed

lemma consume_results_first_trip:
  assumes st: "\<not> abort st" "consecutive_fail st = 0"
    and k: "k \<le> length rs" "ABORT_THRESHOLD \<le> trailing_failures (take k rs)"
    and least: "\<forall>j<k. trailing_failures (take j rs) < ABORT_THRESHOLD"
  shows "consume_results st rs = consume_results st (take k rs)"
    "abort (consume_results st rs)"
    "consecutive_fail (consume_results st rs) = trailing_failures (take k rs)"
    "results_taken (consume_results st rs) = results_taken st + k"
proof -
  have k0: "0 < k"
    using k(2) by (cases k) (simp_all add: ABORT_THRESHOLD_def)
  let ?pre = "take (k - 1) rs"
  let ?r = "rs ! (k - 1)"
  have tk: "take k rs = ?pre @ [?r]"
    using k0 k(1) take_Suc_conv_app_nth [of "k - 1" rs] by simp
  have lp: "length ?pre = k - 1"
    using k(1) by simp
  have "\<not> (\<exists>j. j \<le> length ?pre \<and> ABORT_THRESHOLD \<le> trailing_failures (take j ?pre))"
  proof
    assume "\<exists>j. j \<le> length ?pre \<and> ABORT_THRESHOLD \<le> trailing_failures (take j ?pre)"
    then obtain j where j: "j \<le> k - 1" "ABORT_THRESHOLD \<le> trailing_failures (take j ?pre)"
      using lp by auto
    have "take j ?pre = take j rs"
      using j(1) by (simp add: min_def)
    moreover have "trailing_failures (take j rs) < ABORT_THRESHOLD"
      using least j(1) k0 by simp
    ultimately show False
      using j(2) by simp
  qed
  then have np: "\<not> abort (consume_results st ?pre)"
    using consume_results_abort_iff [OF st, of ?pre] by simp
  have ak: "abort (consume_results st (take k rs))"
    using consume_results_abort_iff [OF st, of "take k rs"] k by auto
  show e: "consume_results st rs = consume_results st (take k rs)"
    using consume_results_stops [OF st(1) ak, of "drop k rs"] by simp
  show "abort (consume_results st rs)"
    using e ak by simp
  have cp: "consecutive_fail (consume_results st ?pre) = trailing_failures ?pre"
    using consume_results_counter [OF st np] .
  have tp: "results_taken (consume_results st ?pre) = results_taken st + (k - 1)"
    using consume_results_taken [OF st(1) np] lp by simp
  have s: "consume_results st (take k rs) =
      (let st1 = take_result (consume_results st ?pre) ?r
       in if consecutive_fail st1 \<ge> ABORT_THRESHOLD then st1\<lparr>abort := True\<rparr> else st1)"
    unfolding tk using consume_results_snoc [OF st(1) np] .
  show "consecutive_fail (consume_results st rs) = trailing_failures (take k rs)"
    unfolding e s using cp by (simp add: Let_def tk trailing_failures_snoc)
  show "results_taken (consume_results st rs) = results_taken st + k"
    unfolding e s using k0 tp by (simp add: Let_def)
qed


lemma results_taken_begin_round [simp]: "results_taken (begin_round st) = results_taken st"
  by (simp add: begin_round_def)

lemma chunks_of_some_tasks_90:
  "chunks_of (some_tasks 90) =
   [take 20 (some_tasks 90), take 20 (drop 20 (some_tasks 90)),
    take 20 (drop 40 (some_tasks 90)), take 20 (drop 60 (some_tasks 90)),
    take 20 (drop 80 (some_tasks 90))]"
  by (simp add: chunks_of.simps chunk_size_def)

lemma le_5_cases: "k \<le> 5 \<Longrightarrow> k = 0 \<or> k = 1 \<or> k = 2 \<or> k = 3 \<or> k = 4 \<or> k = (5::nat)"
  by arith

lemma less_4_cases: "j < 4 \<Longrightarrow> j = 0 \<or> j = 1 \<or> j = 2 \<or> j = (3::nat)"
  by arith

text \<open>
  Claim C7.  \<open>rs\<close> are the results of the round in the order in which they arrive, \<open>st1\<close> is
  the state after the round.  The failure volume after \<open>k\<close> results is that of the unbroken run
  of success-free results that ends there: a result with a success makes it zero.  The round
  aborts exactly when that volume reaches \<open>ABORT_THRESHOLD\<close> after some result.  When it does
  not, the counter is the volume after the last result and every result has been taken.  When
  it does, the round stops at the first result after which the volume has reached the
  threshold: the counter is the volume there, and no later result is taken; the loop over the
  attempts ends with the state of that round, no later round begins.  A batch whose first
  round fails in every chunk, with a failure volume of at least \<open>ABORT_THRESHOLD\<close>, aborts in
  that first round, before the \<open>MAX_ATTEMPTS\<close> rounds are used up.
\<close>

theorem circuit_breaker:
  assumes "rs = imap_unordered attempt (round_chunks attempt batch)"
    and "st1 = run_round imap_unordered attempt batch st"
  shows
    "(abort st1 \<longleftrightarrow>
        (\<exists>k. k \<le> length rs \<and> ABORT_THRESHOLD \<le> trailing_failures (take k rs)))
   \<and> (\<not> abort st1 \<longrightarrow>
        consecutive_fail st1 = trailing_failures rs
        \<and> results_taken st1 = results_taken st + length rs)
   \<and> (\<forall>k. k \<le> length rs \<and> ABORT_THRESHOLD \<le> trailing_failures (take k rs)
          \<and> (\<forall>j<k. trailing_failures (take j rs) < ABORT_THRESHOLD) \<longrightarrow>
        abort st1 \<and> st1 = consume_results (begin_round st) (take k rs)
        \<and> consecutive_fail st1 = trailing_failures (take k rs)
        \<and> results_taken st1 = results_taken st + k)
   \<and> ((\<exists>k. k \<le> length rs \<and> ABORT_THRESHOLD \<le> trailing_failures (take k rs))
          \<and> batch = filter (\<lambda>t. fst (fst t) \<notin> finished_codes st) pending \<and> batch \<noteq> [] \<longrightarrow>
        for_attempts imap_unordered pending (attempt # attempts) st = st1
        \<and> abort (for_attempts imap_unordered pending (attempt # attempts) st)
        \<and> rounds_begun (for_attempts imap_unordered pending (attempt # attempts) st) =
            rounds_begun st + 1)
   \<and> (tasks \<noteq> [] \<and> (\<forall>r \<in> set (imap_unordered 1 (round_chunks 1 tasks)). fst r = [])
          \<and> ABORT_THRESHOLD \<le>
              sum_list (map (\<lambda>r. length (snd r)) (imap_unordered 1 (round_chunks 1 tasks))) \<longrightarrow>
        abort (run imap_unordered tasks) \<and> rounds_begun (run imap_unordered tasks) = 1
        \<and> 1 < MAX_ATTEMPTS)"
proof (intro conjI)
  have b: "\<not> abort (begin_round st)" "consecutive_fail (begin_round st) = 0"
    by simp_all
  have s: "st1 = consume_results (begin_round st) rs"
    using assms by (simp add: run_round_def)
  show i: "abort st1 \<longleftrightarrow>
      (\<exists>k. k \<le> length rs \<and> ABORT_THRESHOLD \<le> trailing_failures (take k rs))"
    unfolding s by (rule consume_results_abort_iff [OF b])
  show "\<not> abort st1 \<longrightarrow>
        consecutive_fail st1 = trailing_failures rs
        \<and> results_taken st1 = results_taken st + length rs"
    unfolding s
    using consume_results_counter [OF b, of rs] consume_results_taken [OF b(1), of rs]
    by simp
  show "\<forall>k. k \<le> length rs \<and> ABORT_THRESHOLD \<le> trailing_failures (take k rs)
          \<and> (\<forall>j<k. trailing_failures (take j rs) < ABORT_THRESHOLD) \<longrightarrow>
        abort st1 \<and> st1 = consume_results (begin_round st) (take k rs)
        \<and> consecutive_fail st1 = trailing_failures (take k rs)
        \<and> results_taken st1 = results_taken st + k"
  proof (intro allI impI, elim conjE)
    fix k
    assume k: "k \<le> length rs" "ABORT_THRESHOLD \<le> trailing_failures (take k rs)"
      "\<forall>j<k. trailing_failures (take j rs) < ABORT_THRESHOLD"
    note f = consume_results_first_trip [OF b k]
    show "abort st1 \<and> st1 = consume_results (begin_round st) (take k rs)
        \<and> consecutive_fail st1 = trailing_failures (take k rs)
        \<and> results_taken st1 = results_taken st + k"
      unfolding s using f by simp
  qed
  show "(\<exists>k. k \<le> length rs \<and> ABORT_THRESHOLD \<le> trailing_failures (take k rs))
          \<and> batch = filter (\<lambda>t. fst (fst t) \<notin> finished_codes st) pending \<and> batch \<noteq> [] \<longrightarrow>
        for_attempts imap_unordered pending (attempt # attempts) st = st1
        \<and> abort (for_attempts imap_unordered pending (attempt # attempts) st)
        \<and> rounds_begun (for_attempts imap_unordered pending (attempt # attempts) st) =
            rounds_begun st + 1"
  proof (intro impI, elim conjE)
    assume "\<exists>k. k \<le> length rs \<and> ABORT_THRESHOLD \<le> trailing_failures (take k rs)"
      and bt: "batch = filter (\<lambda>t. fst (fst t) \<notin> finished_codes st) pending" "batch \<noteq> []"
    then have a: "abort st1" using i by simp
    have f: "for_attempts imap_unordered pending (attempt # attempts) st = st1"
      using a bt assms(2) by (auto simp: Let_def)
    show "for_attempts imap_unordered pending (attempt # attempts) st = st1
        \<and> abort (for_attempts imap_unordered pending (attempt # attempts) st)
        \<and> rounds_begun (for_attempts imap_unordered pending (attempt # attempts) st) =
            rounds_begun st + 1"
      unfolding f using a by (simp add: s)
  qed
  show "tasks \<noteq> [] \<and> (\<forall>r \<in> set (imap_unordered 1 (round_chunks 1 tasks)). fst r = [])
          \<and> ABORT_THRESHOLD \<le>
              sum_list (map (\<lambda>r. length (snd r)) (imap_unordered 1 (round_chunks 1 tasks))) \<longrightarrow>
        abort (run imap_unordered tasks) \<and> rounds_begun (run imap_unordered tasks) = 1
        \<and> 1 < MAX_ATTEMPTS"
  proof (intro impI, elim conjE)
    let ?st0 = initial_state
    let ?rs = "imap_unordered 1 (round_chunks 1 tasks)"
    assume ne: "tasks \<noteq> []" and f: "\<forall>r \<in> set ?rs. fst r = []"
      and n: "ABORT_THRESHOLD \<le> sum_list (map (\<lambda>r. length (snd r)) ?rs)"
    have a: "abort (run_round imap_unordered 1 tasks ?st0)"
      unfolding run_round_def
      by (rule consume_results_trips) (use f n in \<open>simp_all add: ABORT_THRESHOLD_def\<close>)
    have u: "[1 ..< MAX_ATTEMPTS + 1] = 1 # [2 ..< MAX_ATTEMPTS + 1]"
      by (simp add: MAX_ATTEMPTS_def upt_rec)
    have fin: "finished_codes initial_state = {}"
      by (simp add: initial_state_def)
    have r: "run imap_unordered tasks = run_round imap_unordered 1 tasks ?st0"
      unfolding run_def u using a ne by (simp add: Let_def fin)
    show "abort (run imap_unordered tasks) \<and> rounds_begun (run imap_unordered tasks) = 1
         \<and> 1 < MAX_ATTEMPTS"
      unfolding r using a by (simp add: run_round_def MAX_ATTEMPTS_def initial_state_def)
  qed
qed

theorem circuit_breaker_witness:
  "length (scripted_pool [True, False, False, False, False] 1
      (round_chunks 1 (some_tasks 90))) = 5
   \<and> trailing_failures (take 1 (scripted_pool [True, False, False, False, False] 1
        (round_chunks 1 (some_tasks 90)))) = 0
   \<and> trailing_failures (take 2 (scripted_pool [True, False, False, False, False] 1
        (round_chunks 1 (some_tasks 90)))) = 20
   \<and> trailing_failures (take 3 (scripted_pool [True, False, False, False, False] 1
        (round_chunks 1 (some_tasks 90)))) = 40
   \<and> trailing_failures (take 4 (scripted_pool [True, False, False, False, False] 1
        (round_chunks 1 (some_tasks 90)))) = 60
   \<and> abort (run_round (scripted_pool [True, False, False, False, False]) 1 (some_tasks 90)
        initial_state)
   \<and> consecutive_fail (run_round (scripted_pool [True, False, False, False, False]) 1
        (some_tasks 90) initial_state) = 60
   \<and> results_taken (run_round (scripted_pool [True, False, False, False, False]) 1
        (some_tasks 90) initial_state) = 4
   \<and> for_attempts (scripted_pool [True, False, False, False, False]) (some_tasks 90) [1, 2]
        initial_state =
       run_round (scripted_pool [True, False, False, False, False]) 1 (some_tasks 90)
        initial_state
   \<and> rounds_begun (for_attempts (scripted_pool [True, False, False, False, False])
        (some_tasks 90) [1, 2] initial_state) = 1
   \<and> trailing_failures (scripted_pool [False, False, True, False, False] 1
        (round_chunks 1 (some_tasks 90))) = 30
   \<and> \<not> abort (run_round (scripted_pool [False, False, True, False, False]) 1 (some_tasks 90)
        initial_state)
   \<and> consecutive_fail (run_round (scripted_pool [False, False, True, False, False]) 1
        (some_tasks 90) initial_state) = 30
   \<and> results_taken (run_round (scripted_pool [False, False, True, False, False]) 1
        (some_tasks 90) initial_state) = 5
   \<and> list_all (\<lambda>r. fst r = []) (failing_pool 1 (round_chunks 1 (some_tasks 70)))
   \<and> sum_list (map (\<lambda>r. length (snd r)) (failing_pool 1 (round_chunks 1 (some_tasks 70)))) = 70
   \<and> abort (run failing_pool (some_tasks 70))
   \<and> rounds_begun (run failing_pool (some_tasks 70)) = 1"
proof -
  let ?p = "scripted_pool [True, False, False, False, False]"
  let ?q = "scripted_pool [False, False, True, False, False]"
  let ?T = "some_tasks 90"
  let ?rs = "?p 1 (round_chunks 1 ?T)"
  let ?qs = "?q 1 (round_chunks 1 ?T)"
  let ?R = "run_round ?p 1 ?T initial_state"
  let ?Q = "run_round ?q 1 ?T initial_state"
  have l: "length ?rs = 5" "length ?qs = 5"
    by (simp_all add: scripted_pool_def round_chunks_def chunks_of_some_tasks_90 Let_def)
  have t: "trailing_failures (take 0 ?rs) = 0" "trailing_failures (take 1 ?rs) = 0"
    "trailing_failures (take 2 ?rs) = 20" "trailing_failures (take 3 ?rs) = 40"
    "trailing_failures (take 4 ?rs) = 60"
    by (simp_all add: scripted_pool_def round_chunks_def chunks_of_some_tasks_90 Let_def
        trailing_failures_def)
  have least: "\<forall>j<4. trailing_failures (take j ?rs) < ABORT_THRESHOLD"
  proof (intro allI impI)
    fix j :: nat
    assume "j < 4"
    then have "j = 0 \<or> j = 1 \<or> j = 2 \<or> j = 3" by (rule less_4_cases)
    then show "trailing_failures (take j ?rs) < ABORT_THRESHOLD"
      using t by (auto simp: ABORT_THRESHOLD_def)
  qed
  have k4: "(4::nat) \<le> length ?rs" "ABORT_THRESHOLD \<le> trailing_failures (take 4 ?rs)"
    using l t by (simp_all add: ABORT_THRESHOLD_def)
  note c = circuit_breaker [OF refl refl, of ?p 1 ?T initial_state ?T "[2]"]
  have a: "abort ?R \<and> ?R = consume_results (begin_round initial_state) (take 4 ?rs)
      \<and> consecutive_fail ?R = trailing_failures (take 4 ?rs)
      \<and> results_taken ?R = results_taken initial_state + 4"
    using c k4 least by blast
  have i0: "results_taken initial_state = 0" "rounds_begun initial_state = 0"
    by (simp_all add: initial_state_def)
  have a1: "abort ?R"
    using a by blast
  have "consecutive_fail ?R = trailing_failures (take 4 ?rs)"
    using a by blast
  then have a2: "consecutive_fail ?R = 60"
    unfolding t(5) .
  have "results_taken ?R = results_taken initial_state + 4"
    using a by blast
  then have a3: "results_taken ?R = 4"
    unfolding i0 by simp
  have ex: "\<exists>k. k \<le> length ?rs \<and> ABORT_THRESHOLD \<le> trailing_failures (take k ?rs)"
    using k4 by blast
  have b1: "?T = filter (\<lambda>t. fst (fst t) \<notin> finished_codes initial_state) ?T"
    by (simp add: initial_state_def)
  have b2: "?T \<noteq> []"
    by simp
  have b: "for_attempts ?p ?T [1, 2] initial_state = ?R
      \<and> rounds_begun (for_attempts ?p ?T [1, 2] initial_state) =
          rounds_begun initial_state + 1"
    using c ex b1 b2 by blast
  have b3: "for_attempts ?p ?T [1, 2] initial_state = ?R"
    using b by blast
  have "rounds_begun (for_attempts ?p ?T [1, 2] initial_state) =
      rounds_begun initial_state + 1"
    using b by blast
  then have b4: "rounds_begun (for_attempts ?p ?T [1, 2] initial_state) = 1"
    unfolding i0 by simp
  have u: "trailing_failures (take 0 ?qs) = 0" "trailing_failures (take 1 ?qs) = 20"
    "trailing_failures (take 2 ?qs) = 40" "trailing_failures (take 3 ?qs) = 0"
    "trailing_failures (take 4 ?qs) = 20" "trailing_failures (take 5 ?qs) = 30"
    by (simp_all add: scripted_pool_def round_chunks_def chunks_of_some_tasks_90 Let_def
        trailing_failures_def)
  have u5: "trailing_failures ?qs = 30"
    using u(6) l(2) by simp
  have none: "\<not> (\<exists>k. k \<le> length ?qs \<and> ABORT_THRESHOLD \<le> trailing_failures (take k ?qs))"
  proof
    assume "\<exists>k. k \<le> length ?qs \<and> ABORT_THRESHOLD \<le> trailing_failures (take k ?qs)"
    then obtain k where k: "k \<le> 5" "ABORT_THRESHOLD \<le> trailing_failures (take k ?qs)"
      using l(2) by auto
    from k(1) have "k = 0 \<or> k = 1 \<or> k = 2 \<or> k = 3 \<or> k = 4 \<or> k = 5" by (rule le_5_cases)
    then show False
      using k(2) u by (auto simp: ABORT_THRESHOLD_def)
  qed
  note d = circuit_breaker [OF refl refl, of ?q 1 ?T initial_state]
  have d1: "\<not> abort ?Q"
    using d none by blast
  then have dd: "consecutive_fail ?Q = trailing_failures ?qs
      \<and> results_taken ?Q = results_taken initial_state + length ?qs"
    using d by blast
  have "consecutive_fail ?Q = trailing_failures ?qs"
    using dd by blast
  then have d2: "consecutive_fail ?Q = 30"
    unfolding u5 .
  have "results_taken ?Q = results_taken initial_state + length ?qs"
    using dd by blast
  then have d3: "results_taken ?Q = 5"
    unfolding i0 l(2) by simp
  let ?fs = "failing_pool 1 (round_chunks 1 (some_tasks 70))"
  have e1: "\<forall>r \<in> set ?fs. fst r = []"
    by (rule failing_pool_no_success)
  have e2: "sum_list (map (\<lambda>r. length (snd r)) ?fs) = 70"
    using failing_pool_failures [of 1 "some_tasks 70"] by simp
  have e3: "ABORT_THRESHOLD \<le> sum_list (map (\<lambda>r. length (snd r)) ?fs)"
    unfolding e2 by (simp add: ABORT_THRESHOLD_def)
  have e4: "some_tasks 70 \<noteq> []"
    by simp
  have e5: "abort (run failing_pool (some_tasks 70))
      \<and> rounds_begun (run failing_pool (some_tasks 70)) = 1"
    using circuit_breaker [OF refl refl, of failing_pool 1 "some_tasks 70" initial_state
        "some_tasks 70" "[2]" "some_tasks 70"] e1 e3 e4
    by blast
  have e6: "list_all (\<lambda>r. fst r = []) ?fs"
    using e1 by (simp add: list_all_iff)
  show ?thesis
    using l(1) t(2-5) a1 a2 a3 b3 b4 u5 d1 d2 d3 e6 e2 e5 by (intro conjI) blast+
qed

section \<open>Properties of the planner\<close>

lemma date_less_iff:
  "((y, m, d) < ((y', m', d')::date)) \<longleftrightarrow> y < y' \<or> (y = y' \<and> (m < m' \<or> (m = m' \<and> d < d')))"
  by auto

lemma date_le_iff:
  "((y, m, d) \<le> ((y', m', d')::date)) \<longleftrightarrow> y < y' \<or> (y = y' \<and> (m < m' \<or> (m = m' \<and> d \<le> d')))"
  by auto

lemma plus_one_day_le:
  assumes "valid_date l" "valid_date t" "l < t"
  shows "\<exists>n. plus_one_day l = Inr n \<and> n \<le> t \<and> l < n"
proof -
  obtain y m d where l: "l = (y, m, d)" by (cases l) auto
  obtain y' m' d' where t: "t = (y', m', d')" by (cases t) auto
  from assms have v: "1 \<le> m" "m \<le> 12" "1 \<le> d" "d \<le> days_in_month y m"
     "1 \<le> m'" "m' \<le> 12" "1 \<le> d'" "d' \<le> days_in_month y' m'" "y' \<le> 9999"
    and lt: "y < y' \<or> (y = y' \<and> (m < m' \<or> (m = m' \<and> d < d')))"
    unfolding l t by (simp_all only: valid_date.simps date_less_iff)
  show ?thesis
    unfolding l t
    using v lt by (simp only: plus_one_day.simps date_less_iff date_le_iff) (auto; linarith)
qed

lemma minus_one_day_ok:
  assumes "valid_date t" "t \<noteq> (1, 1, 1)"
  shows "\<exists>y. minus_one_day t = Inr y"
proof -
  obtain y' m' d' where t: "t = (y', m', d')" by (cases t) auto
  show ?thesis using assms unfolding t by auto
qed

text \<open>
  When the days read from the clock and from the file are days of the calendar, the decision
  of \<^verbatim>\<open>check_status_worker\<close> is: no file, or no last date, gives a full fetch from
  \<open>DEFAULT_START_DATE\<close>; a last date not before today gives no fetch; a last date that is
  yesterday, before the hour \<open>DATA_READY_HOUR\<close>, gives no fetch; everything else gives an
  append fetch that starts the day after the last date.
\<close>

lemma planner_decision:
  assumes today: "valid_date today" "today \<noteq> (1, 1, 1)"
    and last: "case last_date of None \<Rightarrow> True | Some l \<Rightarrow> valid_date l"
  shows
    "(\<not> file_exists \<or> last_date = None \<longrightarrow>
        check_status_worker item file_exists last_date today current_hour =
          Inr (item, True, Some DEFAULT_START_DATE, Some Full))
   \<and> (\<forall>l. file_exists \<and> last_date = Some l \<and> l \<ge> today \<longrightarrow>
        check_status_worker item file_exists last_date today current_hour =
          Inr (item, False, None, None))
   \<and> (\<forall>l. file_exists \<and> last_date = Some l \<and> l < today
          \<and> minus_one_day today = Inr l \<and> current_hour < DATA_READY_HOUR \<longrightarrow>
        check_status_worker item file_exists last_date today current_hour =
          Inr (item, False, None, None))
   \<and> (\<forall>l. file_exists \<and> last_date = Some l \<and> l < today
          \<and> \<not> (minus_one_day today = Inr l \<and> current_hour < DATA_READY_HOUR) \<longrightarrow>
        (\<exists>n. plus_one_day l = Inr n \<and> l < n \<and>
          check_status_worker item file_exists last_date today current_hour =
            Inr (item, True, Some n, Some Append)))"
proof -
  obtain yd where yd: "minus_one_day today = Inr yd"
    using minus_one_day_ok[OF today] by blast
  have a: "\<not> file_exists \<or> last_date = None \<longrightarrow>
        check_status_worker item file_exists last_date today current_hour =
          Inr (item, True, Some DEFAULT_START_DATE, Some Full)"
    by (auto simp: check_status_worker_def)
  have b: "\<forall>l. file_exists \<and> last_date = Some l \<and> l \<ge> today \<longrightarrow>
        check_status_worker item file_exists last_date today current_hour =
          Inr (item, False, None, None)"
    by (auto simp: check_status_worker_def)
  have c: "\<forall>l. file_exists \<and> last_date = Some l \<and> l < today
          \<and> minus_one_day today = Inr l \<and> current_hour < DATA_READY_HOUR \<longrightarrow>
        check_status_worker item file_exists last_date today current_hour =
          Inr (item, False, None, None)"
    using last by (auto simp: check_status_worker_def strptime_def)
  have d: "\<forall>l. file_exists \<and> last_date = Some l \<and> l < today
          \<and> \<not> (minus_one_day today = Inr l \<and> current_hour < DATA_READY_HOUR) \<longrightarrow>
        (\<exists>n. plus_one_day l = Inr n \<and> l < n \<and>
          check_status_worker item file_exists last_date today current_hour =
            Inr (item, True, Some n, Some Append))"
  proof (intro allI impI)
    fix l
    assume h: "file_exists \<and> last_date = Some l \<and> l < today
          \<and> \<not> (minus_one_day today = Inr l \<and> current_hour < DATA_READY_HOUR)"
    then have vl: "valid_date l" using last by simp
    obtain n where n: "plus_one_day l = Inr n" "n \<le> today" "l < n"
      using plus_one_day_le[OF vl today(1)] h by blast
    have "check_status_worker item file_exists last_date today current_hour =
            Inr (item, True, Some n, Some Append)"
      using h vl n yd by (auto simp: check_status_worker_def strptime_def)
    with n show "\<exists>n. plus_one_day l = Inr n \<and> l < n \<and>
          check_status_worker item file_exists last_date today current_hour =
            Inr (item, True, Some n, Some Append)" by blast
  qed
  from a b c d show ?thesis by blast
qed


text \<open>
  Claim C9.  \<^verbatim>\<open>get_last_date\<close> returns the first field of the file's last line, whatever text
  it is.  When that text is no day of the calendar and sorts below today's date, the
  comparison of line 69 lets it pass and \<^verbatim>\<open>strptime\<close> (line 72) raises \<^verbatim>\<open>ValueError\<close>, which
  nothing in \<^verbatim>\<open>check_status_worker\<close> catches.  The planner gives no decision for the symbol:
  neither the full fetch from the default start date, which the claim has for a last date that
  cannot be read, nor one of its three other outcomes.
\<close>

theorem planner_raises_on_unreadable_date:
  assumes "\<not> valid_date last_s" "last_s < today"
  shows "check_status_worker item True (Some last_s) today current_hour = Inl ValueError"
  using assms by (simp add: check_status_worker_def strptime_def)

theorem planner_raises_on_unreadable_date_witness:
  "\<not> valid_date (2024, 0, 0) \<and> (2024, 0, 0) < ((2024, 3, 1) :: date)
   \<and> check_status_worker (''sh.600000'', ''PF'') True (Some (2024, 0, 0)) (2024, 3, 1) 18 =
       Inl ValueError
   \<and> check_status_worker (''sh.600000'', ''PF'') True None (2024, 3, 1) 18 =
       Inr ((''sh.600000'', ''PF''), True, Some DEFAULT_START_DATE, Some Full)"
proof -
  have v: "\<not> valid_date (2024, 0, 0)"
    by simp
  have l: "(2024, 0, 0) < ((2024, 3, 1) :: date)"
    by simp
  have a: "check_status_worker (''sh.600000'', ''PF'') True (Some (2024, 0, 0)) (2024, 3, 1) 18 =
       Inl ValueError"
    using planner_raises_on_unreadable_date [OF v l] .
  have b: "check_status_worker (''sh.600000'', ''PF'') True None (2024, 3, 1) 18 =
       Inr ((''sh.600000'', ''PF''), True, Some DEFAULT_START_DATE, Some Full)"
    by (simp add: check_status_worker_def)
  show ?thesis
    using v l a b by (intro conjI)
qed

section \<open>Properties of the analyzer\<close>

lemma length_with_indicators:
  "with_indicators ta df = Some idf \<Longrightarrow> length idf = length df"
  by (auto simp: with_indicators_def Let_def split: option.splits)

lemma with_indicators_base:
  assumes "with_indicators ta df = Some idf" "i < length df"
  shows "close (idf ! i) = close (df ! i)" "date (idf ! i) = date (df ! i)"
    "volume (idf ! i) = volume (df ! i)" "high (idf ! i) = high (df ! i)"
    "low (idf ! i) = low (df ! i)"
  using assms
  by (auto simp: with_indicators_def Let_def row.defs irow.defs split: option.splits)

lemma with_indicators_columns:
  assumes "with_indicators ta df = Some idf" "i < length df"
  shows "MA5 (idf ! i) = cell (ta_sma ta (map close df) 5) i"
    "MA20 (idf ! i) = cell (ta_sma ta (map close df) 20) i"
    "MA60 (idf ! i) = cell (ta_sma ta (map close df) 60) i"
    "MA250 (idf ! i) = cell (ta_sma ta (map close df) 250) i"
    "RSI (idf ! i) = cell (ta_rsi ta (map close df) 14) i"
    "VOL_MA5 (idf ! i) = cell (ta_sma ta (map volume df) 5) i"
    "DIF (idf ! i) = cell (map fst (the (ta_macd ta (map close df)))) i"
    "DEA (idf ! i) = cell (map (fst \<circ> snd) (the (ta_macd ta (map close df)))) i"
  using assms
  by (auto simp: with_indicators_def Let_def row.defs irow.defs split: option.splits)

lemma past_data_last_index_less:
  "past_data_last_index target df = Some idx \<Longrightarrow> idx < length df \<and> date (df ! idx) \<le> target"
proof -
  assume a: "past_data_last_index target df = Some idx"
  let ?is = "filter (\<lambda>i. date (df ! i) \<le> target) [0 ..< length df]"
  from a have ne: "?is \<noteq> []" and l: "idx = last ?is"
    by (auto simp: past_data_last_index_def split: list.splits)
  have "last ?is \<in> set ?is" using ne by (rule last_in_set)
  then show ?thesis using l by auto
qed

lemma past_data_last_index_alt:
  "past_data_last_index target df =
     (if filter (\<lambda>i. date (df ! i) \<le> target) [0 ..< length df] = [] then None
      else Some (last (filter (\<lambda>i. date (df ! i) \<le> target) [0 ..< length df])))"
  by (simp add: past_data_last_index_def split: list.splits)

lemma evaluation_index_less:
  "df \<noteq> [] \<Longrightarrow> evaluation_index md bt df = Some idx \<Longrightarrow> idx < length df"
  by (auto simp: evaluation_index_def split: mode.splits option.splits if_splits
      dest: past_data_last_index_less)

lemma process_one_stock_analyzed:
  assumes "60 \<le> length df" "cd \<in> wl \<or> sc = All"
    and "with_indicators ta df = Some idf" "evaluation_index md bt df = Some idx"
  shows "process_one_stock ta df cd nm wl md sc bt =
           (if \<not> strategy_pass (idf ! idx) \<and> cd \<notin> wl then None
            else Some (build_result df (idf ! idx) idx cd nm (cd \<in> wl) md))"
  using assms by (auto simp: process_one_stock_def Let_def)

lemma col_max_Max:
  assumes "xs \<noteq> []"
  shows "col_max xs = Max (set xs)"
proof (cases xs)
  case Nil
  then show ?thesis using assms by simp
next
  case (Cons a list)
  then show ?thesis
    using Max.set_eq_fold [of a list] by simp
qed

lemma forward_of_process:
  assumes "process_one_stock ta df cd nm wl Backtest sc bt = Some res"
    and "evaluation_index Backtest bt df = Some idx"
  shows "forward res = Some (backtest_returns df idx (close (df ! idx)))"
proof -
  from assms(1) have len: "60 \<le> length df"
    by (auto simp: process_one_stock_def split: if_splits)
  then have ne: "df \<noteq> []" by auto
  have i: "idx < length df" using evaluation_index_less [OF ne assms(2)] .
  from assms(1) obtain idf where idf: "with_indicators ta df = Some idf"
    by (auto simp: process_one_stock_def Let_def split: if_splits option.splits)
  have c: "close (idf ! idx) = close (df ! idx)"
    using with_indicators_base(1) [OF idf i] .
  from assms(1) have res: "res = build_result df (idf ! idx) idx cd nm (cd \<in> wl) Backtest"
    using idf assms(2) by (auto simp: process_one_stock_def Let_def split: if_splits)
  show ?thesis
    unfolding res by (simp add: build_result_def Let_def c)
qed


subsection \<open>The example rows and the example library\<close>

lemma length_series [simp]: "length (series n price) = n"
  by (simp add: series_def)

lemma nth_series [simp]: "k < n \<Longrightarrow> series n price ! k = bar (day_n k) (price k)"
  by (simp add: series_def)

lemma bar_simps [simp]:
  "date (bar d c) = d" "close (bar d c) = c" "high (bar d c) = c" "low (bar d c) = c"
  "volume (bar d c) = 1000"
  by (simp_all add: bar_def)

lemma with_indicators_example_ta:
  "\<exists>idf. with_indicators (example_ta s dif dea k d) df = Some idf"
  by (simp add: with_indicators_def example_ta_def Let_def)

lemma example_ta_row:
  assumes "with_indicators (example_ta s dif dea k d) df = Some idf" "i < length df"
  shows "MA20 (idf ! i) = Some (close (df ! i) + s)"
    "DIF (idf ! i) = Some dif" "DEA (idf ! i) = Some dea"
    "KD (idf ! i) = Some (Some k, Some d)"
    "VOL_MA5 (idf ! i) = Some (volume (df ! i) + s)"
  using assms
  by (auto simp: with_indicators_def example_ta_def Let_def cell_def row.defs irow.defs)

lemma evaluation_index_current:
  "evaluation_index Current bt df = Some (length df - 1)"
  by (simp add: evaluation_index_def)

lemma evaluation_index_bumpy_60:
  "evaluation_index Backtest (Some (day_n 60)) bumpy_series = Some 60"
  by (simp add: evaluation_index_def past_data_last_index_alt bumpy_series_def day_n_def upt_rec)

lemma past_data_last_index_bumpy_59:
  "past_data_last_index (day_n 59) bumpy_series = Some 59"
  by (simp add: past_data_last_index_alt bumpy_series_def day_n_def upt_rec)

lemma length_bumpy_series [simp]: "length bumpy_series = 71"
  by (simp add: bumpy_series_def)

lemma close_bumpy_series:
  "close (bumpy_series ! 60) = 10" "close (bumpy_series ! 65) = 11"
  "close (bumpy_series ! 70) = 12"
  by (simp_all add: bumpy_series_def)

lemma process_bumpy_watchlist:
  "\<exists>res. process_one_stock (example_ta 1 (- 1) 0 40 50) bumpy_series the_code the_name
      {the_code} Backtest All (Some (day_n 60)) = Some res"
proof -
  obtain idf where idf: "with_indicators (example_ta 1 (- 1) 0 40 50) bumpy_series = Some idf"
    using with_indicators_example_ta by blast
  show ?thesis
    using process_one_stock_analyzed [OF _ _ idf evaluation_index_bumpy_60, of the_code
        "{the_code}" All the_name]
    by simp
qed


text \<open>
  Claim C4.  A series of fewer than 60 rows gives no result, whatever the other arguments;
  and in backtest mode, when the last row on or before the backtest date is at a position
  below 60, the function gives no result either.  In both cases the answer is \<open>None\<close>, not
  a result filled with zeros.
\<close>

theorem insufficient_history:
  "(length df < 60 \<longrightarrow> process_one_stock ta df cd nm wl md sc bt = None)
   \<and> (past_data_last_index target df = Some idx \<and> idx < 60 \<longrightarrow>
        process_one_stock ta df cd nm wl Backtest sc (Some target) = None)"
  by (auto simp: process_one_stock_def evaluation_index_def Let_def split: option.splits)

theorem insufficient_history_witness:
  "length (series 59 (\<lambda>k. 10)) < 60
   \<and> process_one_stock (example_ta 1 (- 1) 0 50 40) (series 59 (\<lambda>k. 10)) the_code the_name
        {the_code} Current All None = None
   \<and> past_data_last_index (day_n 59) bumpy_series = Some 59 \<and> (59 :: nat) < 60
   \<and> process_one_stock (example_ta 1 (- 1) 0 50 40) bumpy_series the_code the_name
        {the_code} Backtest All (Some (day_n 59)) = None"
proof -
  have a: "length (series 59 (\<lambda>k. 10)) < 60"
    by simp
  have b: "past_data_last_index (day_n 59) bumpy_series = Some 59 \<and> (59 :: nat) < 60"
    using past_data_last_index_bumpy_59 by simp
  have c: "process_one_stock (example_ta 1 (- 1) 0 50 40) (series 59 (\<lambda>k. 10)) the_code
      the_name {the_code} Current All None = None"
    using insufficient_history [where df = "series 59 (\<lambda>k. 10)"] a by blast
  have d: "process_one_stock (example_ta 1 (- 1) 0 50 40) bumpy_series the_code the_name
        {the_code} Backtest All (Some (day_n 59)) = None"
    using insufficient_history [where df = bumpy_series and target = "day_n 59" and idx = 59] b
    by blast
  show ?thesis
    using a b c d by blast
qed


text \<open>
  The strategy filter in terms of the columns of the frame.  For a symbol that reaches the
  filter (at least 60 rows, the scope lets it through, the indicators and the evaluation
  index exist): \<open>strategy_pass\<close> at the evaluation row is \<open>close > MA20\<close>, or the column \<open>DIF\<close>
  above the column \<open>DEA\<close>, or \<open>K > D\<close>; a symbol of the watchlist gets a result whatever the
  verdict; a symbol that is not on the watchlist gets no result exactly when the verdict is
  false.
\<close>

lemma strategy_inclusion:
  assumes "60 \<le> length df" "cd \<in> wl \<or> sc = All"
    and "with_indicators ta df = Some idf" "evaluation_index md bt df = Some idx"
  shows "(strategy_pass (idf ! idx) \<longleftrightarrow>
           gt (Some (close (idf ! idx))) (MA20 (idf ! idx))
           \<or> (gt (DIF (idf ! idx)) (DEA (idf ! idx))
               \<or> (\<exists>k d. KD (idf ! idx) = Some (k, d) \<and> gt k d)))
       \<and> (cd \<in> wl \<longrightarrow>
            (\<exists>res. process_one_stock ta df cd nm wl md sc bt = Some res \<and> is_watchlist res))
       \<and> (cd \<notin> wl \<longrightarrow>
            (process_one_stock ta df cd nm wl md sc bt = None \<longleftrightarrow> \<not> strategy_pass (idf ! idx)))"
proof -
  have "strategy_pass (idf ! idx) \<longleftrightarrow>
           gt (Some (close (idf ! idx))) (MA20 (idf ! idx))
           \<or> (gt (DIF (idf ! idx)) (DEA (idf ! idx))
               \<or> (\<exists>k d. KD (idf ! idx) = Some (k, d) \<and> gt k d))"
    by (auto simp: strategy_pass_def cond1_def cond2_def macd_state_of_def kdj_state_of_def
        split: option.splits if_splits)
  then show ?thesis
    unfolding process_one_stock_analyzed [OF assms]
    by (simp add: build_result_def Let_def)
qed


text \<open>
  Claim C6.  The reasons are recorded for \<open>close > MA20\<close>, for the MACD cross and for a volume
  ratio above 1.5, in this order; the KDJ cross, which \<open>strategy_pass\<close> accepts, has no reason
  of its own.  So a symbol that is not on the watchlist and passes by the KDJ cross alone is
  retained with an empty list of reasons, and its match text is the text meant for the
  watchlist, against the claim that this text is reached by watchlist symbols only.
\<close>

theorem kdj_only_match:
  assumes "60 \<le> length df" "sc = All" "cd \<notin> wl"
    and "with_indicators ta df = Some idf" "evaluation_index md bt df = Some idx"
    and "\<not> gt (Some (close (idf ! idx))) (MA20 (idf ! idx))"
    and "\<not> gt (DIF (idf ! idx)) (DEA (idf ! idx))"
    and "KD (idf ! idx) = Some (k, d)" "gt k d"
    and "vol_ratio_of (idf ! idx) \<le> 1.5"
  shows "\<exists>res. process_one_stock ta df cd nm wl md sc bt = Some res
     \<and> is_watchlist res = False \<and> match res = Watchlist_observation"
proof -
  have p: "strategy_pass (idf ! idx)"
    using assms(8,9) by (simp add: strategy_pass_def cond2_def kdj_state_of_def)
  have m: "match_reason (idf ! idx) = []"
    using assms(6,7,10) by (simp add: match_reason_def cond1_def macd_state_of_def)
  show ?thesis
    unfolding process_one_stock_analyzed [OF assms(1) disjI2 [OF assms(2)] assms(4,5)]
    using p m assms(3) by (simp add: build_result_def Let_def match_str_def)
qed

theorem kdj_only_match_witness:
  "60 \<le> length (series 60 (\<lambda>k. 10))
   \<and> the_code \<notin> ({} :: string set)
   \<and> evaluation_index Current None (series 60 (\<lambda>k. 10)) = Some 59
   \<and> (\<exists>res. process_one_stock (example_ta 1 (- 1) 0 50 40) (series 60 (\<lambda>k. 10)) the_code
          the_name {} Current All None = Some res
        \<and> is_watchlist res = False \<and> match res = Watchlist_observation)"
proof -
  let ?df = "series 60 (\<lambda>k. 10)"
  have len: "60 \<le> length ?df" by simp
  have ev: "evaluation_index Current None ?df = Some 59"
    by (simp add: evaluation_index_current)
  obtain idf where idf: "with_indicators (example_ta 1 (- 1) 0 50 40) ?df = Some idf"
    using with_indicators_example_ta by blast
  have c: "close (idf ! 59) = 10" "volume (idf ! 59) = 1000"
    using with_indicators_base(1,3) [OF idf, of 59] by simp_all
  note r = example_ta_row [OF idf, of 59]
  have h1: "\<not> gt (Some (close (idf ! 59))) (MA20 (idf ! 59))"
    using c r by (simp add: gt_def)
  have h2: "\<not> gt (DIF (idf ! 59)) (DEA (idf ! 59))"
    using r by (simp add: gt_def)
  have h3: "KD (idf ! 59) = Some (Some 50, Some 40)" "gt (Some 50) (Some (40 :: real))"
    using r by (simp_all add: gt_def)
  have h4: "vol_ratio_of (idf ! 59) \<le> 1.5"
    using c r by (simp add: vol_ratio_of_def py_round_def Let_def)
  have "\<exists>res. process_one_stock (example_ta 1 (- 1) 0 50 40) ?df the_code
          the_name {} Current All None = Some res
        \<and> is_watchlist res = False \<and> match res = Watchlist_observation"
    using kdj_only_match [OF len refl _ idf ev h1 h2 h3 h4, of the_code "{}" the_name]
    by simp
  then show ?thesis
    using len ev by simp
qed


text \<open>
  Claim C8, as stated, fails: the backtest columns hold percentages rounded to two
  decimals, not ratios.  With a close of 10 at the evaluation row and a close of 11 five rows
  later, the column for five days holds 10, while \<open>(close\<^sub>i\<^sub>+\<^sub>5 - close\<^sub>i) / close\<^sub>i\<close> is one
  tenth.
\<close>

theorem percent_returns_counterexample:
  "\<exists>res fw. process_one_stock (example_ta 1 (- 1) 0 40 50) bumpy_series the_code the_name
        {the_code} Backtest All (Some (day_n 60)) = Some res
     \<and> forward res = Some fw
     \<and> T5 fw = 10
     \<and> T5 fw \<noteq> (close (bumpy_series ! (60 + 5)) - close (bumpy_series ! 60))
                  / close (bumpy_series ! 60)"
proof -
  obtain res where res: "process_one_stock (example_ta 1 (- 1) 0 40 50) bumpy_series the_code
      the_name {the_code} Backtest All (Some (day_n 60)) = Some res"
    using process_bumpy_watchlist by blast
  have f: "forward res = Some (backtest_returns bumpy_series 60 (close (bumpy_series ! 60)))"
    using forward_of_process [OF res evaluation_index_bumpy_60] .
  have t: "T5 (backtest_returns bumpy_series 60 (close (bumpy_series ! 60))) = 10"
    by (simp add: backtest_returns_def Let_def close_bumpy_series py_round_def)
  show ?thesis
    using res f t by (simp add: close_bumpy_series)
qed

text \<open>
  Claim C8, amended.  In backtest mode, with a close at the evaluation row \<open>idx\<close> that is not
  zero, the result holds the four backtest columns, computed from the rows after \<open>idx\<close> only:
  the column for \<open>k\<close> days (5, 10, 30) is \<open>100 * (close\<^sub>i\<^sub>d\<^sub>x\<^sub>+\<^sub>k - close\<^sub>i\<^sub>d\<^sub>x) / close\<^sub>i\<^sub>d\<^sub>x\<close> rounded to
  two decimals when at least \<open>k\<close> rows follow \<open>idx\<close>, and 0 otherwise; the column of the
  highest gain is the same expression for the highest \<open>high\<close> among the next 30 rows (or as
  many as there are) when a row follows \<open>idx\<close>, and 0 otherwise.  With exactly ten rows after
  \<open>idx\<close> the columns for 5 and 10 days are computed and the column for 30 days is 0.
\<close>

theorem backtest_forward_returns:
  assumes "process_one_stock ta df cd nm wl Backtest sc bt = Some res"
    and "evaluation_index Backtest bt df = Some idx"
    and "close (df ! idx) \<noteq> 0"
  shows "\<exists>fw. forward res = Some fw
     \<and> T5 fw = (if idx + 5 < length df
                then py_round ((close (df ! (idx + 5)) - close (df ! idx)) / close (df ! idx) * 100) 2
                else 0)
     \<and> T10 fw = (if idx + 10 < length df
                then py_round ((close (df ! (idx + 10)) - close (df ! idx)) / close (df ! idx) * 100) 2
                else 0)
     \<and> T30 fw = (if idx + 30 < length df
                then py_round ((close (df ! (idx + 30)) - close (df ! idx)) / close (df ! idx) * 100) 2
                else 0)
     \<and> max_gain fw = (if idx + 1 < length df
                then py_round ((Max (set (map high (take 30 (drop (idx + 1) df)))) - close (df ! idx))
                        / close (df ! idx) * 100) 2
                else 0)"
proof -
  from assms(1) have len: "60 \<le> length df"
    by (auto simp: process_one_stock_def split: if_splits)
  have f: "forward res = Some (backtest_returns df idx (close (df ! idx)))"
    using forward_of_process [OF assms(1,2)] .
  have m: "idx + 1 < length df \<Longrightarrow>
      col_max (map high (take 30 (drop (idx + 1) df))) =
      Max (set (map high (take 30 (drop (idx + 1) df))))"
    by (rule col_max_Max) simp
  show ?thesis
    unfolding f using m
    by (auto simp: backtest_returns_def Let_def add.commute)
qed

theorem backtest_forward_returns_witness:
  "close (bumpy_series ! 60) \<noteq> 0
   \<and> evaluation_index Backtest (Some (day_n 60)) bumpy_series = Some 60
   \<and> length bumpy_series = 60 + 1 + 10
   \<and> (\<exists>res fw. process_one_stock (example_ta 1 (- 1) 0 40 50) bumpy_series the_code the_name
          {the_code} Backtest All (Some (day_n 60)) = Some res
        \<and> forward res = Some fw \<and> T5 fw = 10 \<and> T10 fw = 20 \<and> T30 fw = 0 \<and> max_gain fw = 20)"
proof -
  obtain res where res: "process_one_stock (example_ta 1 (- 1) 0 40 50) bumpy_series the_code
      the_name {the_code} Backtest All (Some (day_n 60)) = Some res"
    using process_bumpy_watchlist by blast
  have nz: "close (bumpy_series ! 60) \<noteq> 0"
    by (simp add: close_bumpy_series)
  have m: "Max (set (map high (take 30 (drop (60 + 1) bumpy_series)))) = 12"
    by (simp add: bumpy_series_def series_def upt_rec)
  have r: "py_round 10 2 = 10" "py_round 20 2 = 20"
    by (simp_all add: py_round_def Let_def)
  have "\<exists>fw. forward res = Some fw \<and> T5 fw = 10 \<and> T10 fw = 20 \<and> T30 fw = 0 \<and> max_gain fw = 20"
    using backtest_forward_returns [OF res evaluation_index_bumpy_60 nz]
    unfolding m by (simp add: close_bumpy_series r)
  then show ?thesis
    using res nz evaluation_index_bumpy_60 by simp
qed


subsection \<open>No look-ahead\<close>

lemma length_smooth [simp]: "length (smooth a y xs) = length xs"
  by (induction xs arbitrary: y) simp_all



lemma length_seeded_average:
  "length (seeded_average a n xs) = (if n = 0 \<or> length xs < n then 0 else length xs + 1 - n)"
  by (auto simp: seeded_average_def)






lemma cell_column_from:
  "i < len \<Longrightarrow> cell (column_from k vals len) i =
     (if i < k then None else if i - k < length vals then vals ! (i - k) else None)"
  by (auto simp: cell_def column_from_def nth_append)






lemma length_ema_values:
  "0 < n \<Longrightarrow> length (ema_values n xs) = length xs + 1 - n"
  by (auto simp: ema_values_def length_seeded_average)

lemma length_macd_line: "length (macd_line xs) = length xs - 25"
  by (simp add: macd_line_def length_ema_values)

lemma length_macd_signal: "length (macd_signal xs) = length xs - 33"
  by (simp add: macd_signal_def length_ema_values length_macd_line)

lemma length_macd_histogram: "length (macd_histogram xs) = length xs - 33"
  by (simp add: macd_histogram_def length_macd_signal length_macd_line)



lemma length_weighted_sums [simp]: "length (weighted_sums a s xs) = length xs"
  by (induction xs arbitrary: s) simp_all







lemma indicator_values_modelled:
  assumes "26 \<le> length df" "i < length df"
  shows "\<exists>a f. with_indicators (modelled_ta kdj) df = Some a \<and> macd (map close df) = Some f
    \<and> indicator_values (a ! i) =
      (cell (sma (map close df) 5) i, cell (sma (map close df) 20) i,
       cell (sma (map close df) 60) i, cell (sma (map close df) 250) i,
       fst (f ! i), fst (snd (f ! i)), cell (rsi (map close df) 14) i)"
proof -
  obtain f where f: "macd (map close df) = Some f" "length f = length df"
    using assms(1) by (auto simp: macd_def)
  then obtain a where a: "with_indicators (modelled_ta kdj) df = Some a"
    by (auto simp: with_indicators_def modelled_ta_def Let_def)
  show ?thesis
    using with_indicators_columns [OF a assms(2)] a f assms(2)
    by (simp add: indicator_values_def modelled_ta_def cell_def)
qed


lemma last_filter_upt_Suc: "P i \<Longrightarrow> last (filter P [0 ..< Suc i]) = i"
  by simp




subsection \<open>The MACD cross with the modelled library\<close>

lemma nth_macd_histogram:
  assumes "j < length xs - 33"
  shows "macd_histogram xs ! j = macd_line xs ! (j + 8) - macd_signal xs ! j"
  using assms
  by (simp add: macd_histogram_def length_macd_signal length_macd_line add.commute)

lemma with_indicators_modelled_macd:
  assumes a: "with_indicators (modelled_ta kdj) df = Some a" and i: "33 \<le> i" "i < length df"
  shows "DIF (a ! i) = Some (macd_line (map close df) ! (i - 25))"
    "DEA (a ! i) =
       Some (macd_line (map close df) ! (i - 25) - macd_signal (map close df) ! (i - 33))"
proof -
  let ?cs = "map close df"
  have m: "macd ?cs \<noteq> None"
    using a by (auto simp: with_indicators_def modelled_ta_def Let_def split: option.splits)
  then have len: "26 \<le> length df"
    by (auto simp: macd_def split: if_splits)
  have f: "the (macd ?cs) ! i =
      (cell (column_from 25 (map Some (macd_line ?cs)) (length ?cs)) i,
       cell (column_from 33 (map Some (macd_histogram ?cs)) (length ?cs)) i,
       cell (column_from 33 (map Some (macd_signal ?cs)) (length ?cs)) i)"
    and l: "length (the (macd ?cs)) = length df"
    using len i by (simp_all add: macd_def)
  have h: "macd_histogram ?cs ! (i - 33) = macd_line ?cs ! (i - 25) - macd_signal ?cs ! (i - 33)"
    using nth_macd_histogram [of "i - 33" ?cs] i by simp
  show "DIF (a ! i) = Some (macd_line ?cs ! (i - 25))"
    using with_indicators_columns(7) [OF a i(2)] f l i
    by (simp add: modelled_ta_def cell_def [of "map fst _"] cell_column_from length_macd_line)
  show "DEA (a ! i) = Some (macd_line ?cs ! (i - 25) - macd_signal ?cs ! (i - 33))"
    using with_indicators_columns(8) [OF a i(2)] f l i h
    by (simp add: modelled_ta_def cell_def [of "map (fst \<circ> snd) _"] cell_column_from
        length_macd_histogram)
qed

lemma evaluation_index_ge:
  "60 \<le> length df \<Longrightarrow> evaluation_index md bt df = Some idx \<Longrightarrow> 59 \<le> idx \<and> idx < length df"
  by (auto simp: evaluation_index_def split: mode.splits option.splits if_splits
      dest: past_data_last_index_less)

lemma cell_sma:
  "i < length xs \<Longrightarrow> cell (sma xs n) i =
     (if n = 0 \<or> i + 1 < n then None
      else Some (sum_list (take n (drop (i + 1 - n) xs)) / real n))"
  by (simp add: cell_def sma_def)

lemma closes_kink_series:
  "map close kink_series =
    [40, 42, 44, 46, 48, 50, 52, 54, 56, 58, 60, 62, 64, 66, 68, 70, 72, 74, 76, 78,
     80, 82, 84, 86, 88, 90, 92, 94, 96, 98, 100, 102, 104, 106, 108, 110, 112, 114,
     116, 118, 120, 122, 124, 126, 128, 130, 132, 134, 136, 138, 138, 136, 134, 132,
     130, 128, 126, 124, 122, 120]"
  by (simp add: kink_series_def series_def comp_def upt_rec)

lemma volumes_series: "map volume (series n price) = replicate n 1000"
  by (simp add: series_def comp_def map_replicate_trivial [symmetric] del: replicate.simps)

lemma macd_kink_series:
  "0 < macd_signal (map close kink_series) ! 26"
  "macd_line (map close kink_series) ! 34 < macd_signal (map close kink_series) ! 26"
  unfolding closes_kink_series
  by (simp_all add: macd_signal_def macd_line_def ema_values_def seeded_average_def)

lemma ma20_kink_series: "cell (sma (map close kink_series) 20) 59 = Some 129"
  unfolding closes_kink_series by (simp add: cell_sma)

lemma with_indicators_low_kdj:
  assumes "with_indicators (modelled_ta low_kdj) df = Some a" "i < length df"
  shows "KD (a ! i) = Some (Some 5, Some 18)"
  using assms
  by (auto simp: with_indicators_def modelled_ta_def low_kdj_def Let_def cell_def row.defs
      irow.defs split: option.splits)

text \<open>
  Claim C5.  The MACD golden cross of the claim is \<open>DIF > DEA\<close>: the MACD line above its
  signal.  The function takes \<open>DEA\<close> from column 1 of the frame of \<^verbatim>\<open>ta.macd\<close> (line 88).  With
  the library as modelled that column is the histogram, the line minus the signal; the signal
  is column 2, which the comment of line 89 takes for the histogram.  So the comparison
  \<^verbatim>\<open>curr['DIF'] > curr['DEA']\<close> of line 131 holds exactly when the signal is above zero,
  wherever the line is.  A symbol off the watchlist whose signal is above zero at the
  evaluation row is retained, with the reason \<open>MACD_golden\<close>: also when its close is not above
  MA20, its MACD line is below the signal and its KDJ has no golden cross, a symbol which the
  claim has dropped.
\<close>

theorem macd_cross_reads_histogram:
  assumes len: "60 \<le> length df" and nw: "cd \<notin> watchlist_set"
    and idf: "with_indicators (modelled_ta kdj) df = Some idf"
    and idx: "evaluation_index md bt_date df = Some idx"
  shows "DIF (idf ! idx) = Some (macd_line (map close df) ! (idx - 25))
     \<and> DEA (idf ! idx) =
         Some (macd_line (map close df) ! (idx - 25) - macd_signal (map close df) ! (idx - 33))
     \<and> (macd_state_of (idf ! idx) = Golden_cross \<longleftrightarrow>
          0 < macd_signal (map close df) ! (idx - 33))
     \<and> (0 < macd_signal (map close df) ! (idx - 33) \<longrightarrow>
          (\<exists>res. process_one_stock (modelled_ta kdj) df cd nm watchlist_set md All bt_date =
               Some res
             \<and> is_watchlist res = False \<and> macd_state res = Golden_cross
             \<and> match res = Joined (match_reason (idf ! idx))
             \<and> MACD_golden \<in> set (match_reason (idf ! idx))))"
proof -
  have i: "33 \<le> idx" "idx < length df"
    using evaluation_index_ge [OF len idx] by simp_all
  note m = with_indicators_modelled_macd [OF idf i]
  have g: "macd_state_of (idf ! idx) = Golden_cross \<longleftrightarrow>
      0 < macd_signal (map close df) ! (idx - 33)"
    by (simp add: macd_state_of_def m gt_def)
  have r: "0 < macd_signal (map close df) ! (idx - 33) \<longrightarrow>
          (\<exists>res. process_one_stock (modelled_ta kdj) df cd nm watchlist_set md All bt_date =
               Some res
             \<and> is_watchlist res = False \<and> macd_state res = Golden_cross
             \<and> match res = Joined (match_reason (idf ! idx))
             \<and> MACD_golden \<in> set (match_reason (idf ! idx)))"
  proof
    assume "0 < macd_signal (map close df) ! (idx - 33)"
    then have gc: "macd_state_of (idf ! idx) = Golden_cross"
      using g by simp
    then have p: "strategy_pass (idf ! idx)"
      by (simp add: strategy_pass_def cond2_def)
    have mr: "MACD_golden \<in> set (match_reason (idf ! idx))"
      using gc by (simp add: match_reason_def)
    then have ne: "match_reason (idf ! idx) \<noteq> []"
      by auto
    show "\<exists>res. process_one_stock (modelled_ta kdj) df cd nm watchlist_set md All bt_date =
               Some res
             \<and> is_watchlist res = False \<and> macd_state res = Golden_cross
             \<and> match res = Joined (match_reason (idf ! idx))
             \<and> MACD_golden \<in> set (match_reason (idf ! idx))"
      unfolding process_one_stock_analyzed [OF len disjI2 [OF refl] idf idx]
      using p nw gc mr ne by (simp add: build_result_def Let_def match_str_def)
  qed
  from m g r show ?thesis by blast
qed

theorem macd_cross_reads_histogram_witness:
  "60 \<le> length kink_series \<and> the_code \<notin> ({} :: string set)
   \<and> evaluation_index Current None kink_series = Some 59
   \<and> close (kink_series ! 59) = 120
   \<and> cell (sma (map close kink_series) 20) 59 = Some 129
   \<and> 0 < macd_signal (map close kink_series) ! 26
   \<and> macd_line (map close kink_series) ! 34 < macd_signal (map close kink_series) ! 26
   \<and> (\<exists>res. process_one_stock (modelled_ta low_kdj) kink_series the_code the_name {} Current
          All None = Some res
        \<and> is_watchlist res = False \<and> macd_state res = Golden_cross
        \<and> kdj_state res = Death_cross \<and> match res = Joined [MACD_golden])"
proof -
  let ?df = kink_series
  have len: "60 \<le> length ?df" and l: "length ?df = 60"
    by (simp_all add: kink_series_def)
  have nw: "the_code \<notin> ({} :: string set)"
    by simp
  have ev: "evaluation_index Current None ?df = Some 59"
    by (simp add: evaluation_index_current l)
  have cl: "close (?df ! 59) = 120"
    by (simp add: kink_series_def)
  obtain idf where idf: "with_indicators (modelled_ta low_kdj) ?df = Some idf"
    using indicator_values_modelled [of ?df 59 low_kdj] l by auto
  have i: "59 < length ?df"
    by (simp add: l)
  note t = macd_cross_reads_histogram [OF len nw idf ev, of the_name]
  have g: "macd_state_of (idf ! 59) = Golden_cross"
    using t macd_kink_series(1) by simp
  have c1: "\<not> cond1 (idf ! 59)"
    using with_indicators_base(1) [OF idf i] with_indicators_columns(2) [OF idf i]
      cl ma20_kink_series
    by (simp add: cond1_def gt_def modelled_ta_def)
  have v5: "cell (sma (map volume ?df) 5) 59 = Some 1000"
    using cell_sma [of 59 "map volume ?df" 5] l
    by (simp add: kink_series_def volumes_series sum_list_replicate)
  have vr: "vol_ratio_of (idf ! 59) = 1"
    using with_indicators_base(3) [OF idf i] with_indicators_columns(6) [OF idf i] v5
    by (simp add: vol_ratio_of_def modelled_ta_def kink_series_def py_round_def Let_def)
  have mr: "match_reason (idf ! 59) = [MACD_golden]"
    using c1 g vr by (simp add: match_reason_def)
  have kd: "kdj_state_of (idf ! 59) = Death_cross"
    using with_indicators_low_kdj [OF idf i] by (simp add: kdj_state_of_def gt_def)
  have "\<exists>res. process_one_stock (modelled_ta low_kdj) ?df the_code the_name {} Current All
          None = Some res
        \<and> is_watchlist res = False \<and> macd_state res = Golden_cross
        \<and> match res = Joined (match_reason (idf ! 59))"
    using t macd_kink_series(1) by auto
  then obtain res where res: "process_one_stock (modelled_ta low_kdj) ?df the_code the_name {}
          Current All None = Some res"
    "is_watchlist res = False" "macd_state res = Golden_cross"
    "match res = Joined (match_reason (idf ! 59))"
    by blast
  have "res = build_result ?df (idf ! 59) 59 the_code the_name False Current"
    using res(1) process_one_stock_analyzed [where cd = the_code and wl = "{}" and sc = All
        and nm = the_name, OF len _ idf ev]
    by (simp split: if_splits)
  then have k: "kdj_state res = Death_cross"
    using kd by (simp add: build_result_def Let_def)
  have e: "\<exists>res. process_one_stock (modelled_ta low_kdj) ?df the_code the_name {} Current
          All None = Some res
        \<and> is_watchlist res = False \<and> macd_state res = Golden_cross
        \<and> kdj_state res = Death_cross \<and> match res = Joined [MACD_golden]"
    using res k mr by simp
  show ?thesis
    using len nw ev cl ma20_kink_series macd_kink_series e by (intro conjI)
qed

end
